theory Spec2Isabelle
  imports Main "HOL-Library.Word"
begin

unbundle bit_operations_syntax

section \<open>The landlock stressor (stress-landlock.c)\<close>

text \<open>
  A shallow embedding of the landlock stressor.  Every system call the C code makes is
  recorded as an event, in program order; what the kernel answers is an input of the
  model (one record of answers per process that is run).  The three processes of the
  stressor (the driver, a per-test child, the enumerator child) are three functions.
\<close>

subsection \<open>Constants\<close>

definition EXIT_SUCCESS :: int where
  "EXIT_SUCCESS = 0"

definition SHIM_LANDLOCK_ACCESS_FS_EXECUTE :: "64 word" where
  "SHIM_LANDLOCK_ACCESS_FS_EXECUTE = push_bit 0 1"

definition SHIM_LANDLOCK_ACCESS_FS_WRITE_FILE :: "64 word" where
  "SHIM_LANDLOCK_ACCESS_FS_WRITE_FILE = push_bit 1 1"

definition SHIM_LANDLOCK_ACCESS_FS_READ_FILE :: "64 word" where
  "SHIM_LANDLOCK_ACCESS_FS_READ_FILE = push_bit 2 1"

definition SHIM_LANDLOCK_ACCESS_FS_READ_DIR :: "64 word" where
  "SHIM_LANDLOCK_ACCESS_FS_READ_DIR = push_bit 3 1"

definition SHIM_LANDLOCK_ACCESS_FS_REMOVE_DIR :: "64 word" where
  "SHIM_LANDLOCK_ACCESS_FS_REMOVE_DIR = push_bit 4 1"

definition SHIM_LANDLOCK_ACCESS_FS_REMOVE_FILE :: "64 word" where
  "SHIM_LANDLOCK_ACCESS_FS_REMOVE_FILE = push_bit 5 1"

definition SHIM_LANDLOCK_ACCESS_FS_MAKE_CHAR :: "64 word" where
  "SHIM_LANDLOCK_ACCESS_FS_MAKE_CHAR = push_bit 6 1"

definition SHIM_LANDLOCK_ACCESS_FS_MAKE_DIR :: "64 word" where
  "SHIM_LANDLOCK_ACCESS_FS_MAKE_DIR = push_bit 7 1"

definition SHIM_LANDLOCK_ACCESS_FS_MAKE_REG :: "64 word" where
  "SHIM_LANDLOCK_ACCESS_FS_MAKE_REG = push_bit 8 1"

definition SHIM_LANDLOCK_ACCESS_FS_MAKE_SOCK :: "64 word" where
  "SHIM_LANDLOCK_ACCESS_FS_MAKE_SOCK = push_bit 9 1"

definition SHIM_LANDLOCK_ACCESS_FS_MAKE_FIFO :: "64 word" where
  "SHIM_LANDLOCK_ACCESS_FS_MAKE_FIFO = push_bit 10 1"

definition SHIM_LANDLOCK_ACCESS_FS_MAKE_BLOCK :: "64 word" where
  "SHIM_LANDLOCK_ACCESS_FS_MAKE_BLOCK = push_bit 11 1"

definition SHIM_LANDLOCK_ACCESS_FS_MAKE_SYM :: "64 word" where
  "SHIM_LANDLOCK_ACCESS_FS_MAKE_SYM = push_bit 12 1"

definition SHIM_LANDLOCK_ACCESS_ALL :: "64 word" where
  "SHIM_LANDLOCK_ACCESS_ALL =
     SHIM_LANDLOCK_ACCESS_FS_EXECUTE OR
     SHIM_LANDLOCK_ACCESS_FS_WRITE_FILE OR
     SHIM_LANDLOCK_ACCESS_FS_READ_FILE OR
     SHIM_LANDLOCK_ACCESS_FS_READ_DIR OR
     SHIM_LANDLOCK_ACCESS_FS_REMOVE_DIR OR
     SHIM_LANDLOCK_ACCESS_FS_REMOVE_FILE OR
     SHIM_LANDLOCK_ACCESS_FS_MAKE_CHAR OR
     SHIM_LANDLOCK_ACCESS_FS_MAKE_DIR OR
     SHIM_LANDLOCK_ACCESS_FS_MAKE_REG OR
     SHIM_LANDLOCK_ACCESS_FS_MAKE_SOCK OR
     SHIM_LANDLOCK_ACCESS_FS_MAKE_FIFO OR
     SHIM_LANDLOCK_ACCESS_FS_MAKE_BLOCK OR
     SHIM_LANDLOCK_ACCESS_FS_MAKE_SYM"

lemmas shim_access_defs =
  SHIM_LANDLOCK_ACCESS_FS_EXECUTE_def SHIM_LANDLOCK_ACCESS_FS_WRITE_FILE_def
  SHIM_LANDLOCK_ACCESS_FS_READ_FILE_def SHIM_LANDLOCK_ACCESS_FS_READ_DIR_def
  SHIM_LANDLOCK_ACCESS_FS_REMOVE_DIR_def SHIM_LANDLOCK_ACCESS_FS_REMOVE_FILE_def
  SHIM_LANDLOCK_ACCESS_FS_MAKE_CHAR_def SHIM_LANDLOCK_ACCESS_FS_MAKE_DIR_def
  SHIM_LANDLOCK_ACCESS_FS_MAKE_REG_def SHIM_LANDLOCK_ACCESS_FS_MAKE_SOCK_def
  SHIM_LANDLOCK_ACCESS_FS_MAKE_FIFO_def SHIM_LANDLOCK_ACCESS_FS_MAKE_BLOCK_def
  SHIM_LANDLOCK_ACCESS_FS_MAKE_SYM_def

subsection \<open>Data\<close>

text \<open>\<open>stress_landlock_ctxt_t\<close>: the mask under test is a \<open>uint32_t\<close>.\<close>

record stress_landlock_ctxt_t =
  flag :: "32 word"
  filename :: string
  path :: string

datatype oflags = O_CREAT_RDWR_CLOEXEC | O_RDONLY | O_WRONLY | O_RDWR | O_PATH | O_PATH_NONBLOCK

datatype proc_state = STRESS_STATE_RUN | STRESS_STATE_DEINIT

text \<open>
  The observable actions, in the order the code performs them.  \<open>Ev_add_rule\<close> carries
  the ruleset descriptor, the 64-bit \<open>allowed_access\<close> field and the anchor descriptor
  of the \<open>landlock_path_beneath_attr\<close> handed to the kernel.
\<close>

datatype event =
    Ev_open string oflags
  | Ev_close int
  | Ev_unlink string
  | Ev_create_ruleset_version
  | Ev_create_ruleset "64 word"
  | Ev_add_rule int "64 word" int
  | Ev_prctl_no_new_privs
  | Ev_restrict_self int
  | Ev_pr_inf
  | Ev_pr_err
  | Ev_fork int
  | Ev_redo_fork bool
  | Ev_waitpid int
  | Ev_kill_pid_wait int
  | Ev_call_many string int
  | Ev_scandir string
  | Ev_realpath string "string option"
  | Ev_set_proc_state proc_state

subsection \<open>The per-test child: \<open>stress_landlock_flag\<close>\<close>

text \<open>What the kernel answers to the calls of one run of \<open>stress_landlock_flag\<close>.\<close>

record flag_env =
  creat_fd :: int
  version_ret :: int
  ruleset_fd :: int
  parent_fd :: int
  add_rule_ret :: int
  prctl_ret :: int
  restrict_ret :: int
  rdonly_fd :: int
  wronly_fd :: int
  rdwr_fd :: int

text \<open>\<open>fd = open(...); if (fd > -1) (void)close(fd);\<close>\<close>

definition open_and_close :: "string \<Rightarrow> oflags \<Rightarrow> int \<Rightarrow> event list" where
  "open_and_close name fl fd = Ev_open name fl # (if fd > -1 then [Ev_close fd] else [])"

text \<open>The code from the labels \<open>close_ruleset\<close> and \<open>close_parent\<close> to the return.\<close>

definition close_ruleset :: "flag_env \<Rightarrow> event list" where
  "close_ruleset k = [Ev_close (ruleset_fd k)]"

definition close_parent :: "flag_env \<Rightarrow> event list" where
  "close_parent k = Ev_close (parent_fd k) # close_ruleset k"

text \<open>The three sanity opens and the unlink that follow a successful restriction.\<close>

definition sanity_opens :: "flag_env \<Rightarrow> stress_landlock_ctxt_t \<Rightarrow> event list" where
  "sanity_opens k ctxt =
     open_and_close (filename ctxt) O_RDONLY (rdonly_fd k) @
     open_and_close (filename ctxt) O_WRONLY (wronly_fd k) @
     open_and_close (filename ctxt) O_RDWR (rdwr_fd k) @
     [Ev_unlink (filename ctxt)]"

text \<open>
  The function returns its exit code and the actions it performed.  \<open>rc\<close> is set to
  \<open>EXIT_SUCCESS\<close> at its declaration and never assigned again; the first failure branch
  returns the literal 0.
\<close>

definition stress_landlock_flag :: "flag_env \<Rightarrow> stress_landlock_ctxt_t \<Rightarrow> int \<times> event list" where
  "stress_landlock_flag k ctxt =
     (let rc = EXIT_SUCCESS;
          t0 = open_and_close (filename ctxt) O_CREAT_RDWR_CLOEXEC (creat_fd k) @
               [Ev_create_ruleset_version, Ev_create_ruleset SHIM_LANDLOCK_ACCESS_ALL]
      in if ruleset_fd k < 0 then (0, t0 @ [Ev_pr_inf])
         else
           let allowed_access = (ucast (flag ctxt) :: 64 word);
               t1 = t0 @ [Ev_open (path ctxt) O_PATH]
           in if parent_fd k < 0 then (rc, t1 @ close_ruleset k)
              else
                let t2 = t1 @ [Ev_add_rule (ruleset_fd k) allowed_access (parent_fd k)]
                in if add_rule_ret k < 0 then (rc, t2 @ close_parent k)
                   else
                     let t3 = t2 @ [Ev_prctl_no_new_privs]
                     in if prctl_ret k < 0 then (rc, t3 @ close_parent k)
                        else
                          let t4 = t3 @ [Ev_restrict_self (ruleset_fd k)]
                          in if restrict_ret k < 0 then (rc, t4 @ [Ev_pr_inf] @ close_parent k)
                             else (rc, t4 @ sanity_opens k ctxt @ close_parent k))"

subsection \<open>The subprocess test harness: \<open>stress_landlock_test\<close>\<close>

text \<open>
  One answer of \<open>fork()\<close> as the calling process sees it: a failure (with what
  \<open>stress_redo_fork\<close> then says) or the pid of the new child, a positive number.  The
  branch \<open>pid == 0\<close> runs in the child, which ends in \<open>_exit(func(args, ctxt))\<close> and
  never returns to the caller; it is modelled by \<open>child_status\<close>.
\<close>

datatype fork_outcome = Fork_failed bool | Fork_parent int

text \<open>
  The \<open>again:\<close> loop.  It runs as long as fork fails and \<open>stress_redo_fork\<close> asks for
  another try, so it need not end: the answers are consumed from a list, and \<open>None\<close>
  says that the loop was still running when the list ended.  Otherwise the result is
  the pid of the child, or \<open>None\<close> inside \<open>Some\<close> when the loop gave up.
\<close>

fun fork_again :: "fork_outcome list \<Rightarrow> (int option \<times> event list) option" where
  "fork_again [] = None"
| "fork_again (Fork_parent pid # fs) = Some (Some pid, [Ev_fork pid])"
| "fork_again (Fork_failed False # fs) = Some (None, [Ev_fork (- 1), Ev_redo_fork False])"
| "fork_again (Fork_failed True # fs) =
     (case fork_again fs of
        None \<Rightarrow> None
      | Some (r, evs) \<Rightarrow> Some (r, Ev_fork (- 1) # Ev_redo_fork True # evs))"

text \<open>
  The wait status, as \<open>WIFEXITED\<close> and \<open>WEXITSTATUS\<close> read it: a normal exit with its
  status, or anything else (a child killed by a signal).
\<close>

datatype wstatus = W_exited int | W_signaled int

text \<open>
  What becomes of the child: it runs \<open>func\<close> to its end, with the kernel's answers, and
  exits with the low eight bits of the result; or a signal kills it on the way.
\<close>

datatype child_fate = Child_runs flag_env | Child_killed int

type_synonym stress_landlock_func = "flag_env \<Rightarrow> stress_landlock_ctxt_t \<Rightarrow> int \<times> event list"

definition child_status :: "stress_landlock_func \<Rightarrow> child_fate \<Rightarrow> stress_landlock_ctxt_t \<Rightarrow> wstatus" where
  "child_status func fate ctxt =
     (case fate of
        Child_runs k \<Rightarrow> W_exited (fst (func k ctxt) mod 256)
      | Child_killed sig \<Rightarrow> W_signaled sig)"

text \<open>
  The answer of \<open>shim_waitpid\<close>: success (the status is the child's), a failure with
  \<open>EINTR\<close>, or a failure with another errno.  In the last case the code logs and goes on
  to read \<open>status\<close>, which waitpid has not written: the value it then holds is an input.
\<close>

datatype wait_outcome = Wait_ok | Wait_eintr | Wait_error wstatus

record harness_env =
  forks :: "fork_outcome list"
  fate :: child_fate
  wait :: wait_outcome

text \<open>
  The harness in the parent: the new value of \<open>*failures\<close> and the parent's actions.
\<close>

definition stress_landlock_test ::
  "stress_landlock_func \<Rightarrow> harness_env \<Rightarrow> stress_landlock_ctxt_t \<Rightarrow> int \<Rightarrow> (int \<times> event list) option" where
  "stress_landlock_test func h ctxt failures =
     (case fork_again (forks h) of
        None \<Rightarrow> None
      | Some (None, evs) \<Rightarrow> Some (failures, evs)
      | Some (Some pid, evs) \<Rightarrow>
          (case wait h of
             Wait_eintr \<Rightarrow>
               Some (failures, evs @ [Ev_waitpid pid, Ev_kill_pid_wait pid, Ev_unlink (filename ctxt)])
           | w \<Rightarrow>
               let status = (case w of Wait_error s \<Rightarrow> s | _ \<Rightarrow> child_status func (fate h) ctxt);
                   evs1 = evs @ [Ev_waitpid pid] @ (case w of Wait_error s \<Rightarrow> [Ev_pr_err] | _ \<Rightarrow> [])
               in (case status of
                     W_exited rc \<Rightarrow>
                       Some (if rc \<noteq> EXIT_SUCCESS then failures + 1 else failures,
                             evs1 @ [Ev_unlink (filename ctxt)])
                   | W_signaled sig \<Rightarrow> Some (failures, evs1 @ [Ev_unlink (filename ctxt)]))))"

subsection \<open>The driver: \<open>stress_landlock\<close>\<close>

text \<open>
  The table \<open>landlock_access_flags\<close>, a \<open>static const int []\<close>: the unsigned 64-bit
  constants are converted to \<open>int\<close> (all of them fit), in the order of the source.
\<close>

definition to_int :: "64 word \<Rightarrow> int" where
  "to_int w = sint (ucast w :: 32 word)"

definition landlock_access_flags :: "int list" where
  "landlock_access_flags =
     [to_int SHIM_LANDLOCK_ACCESS_FS_EXECUTE,
      to_int SHIM_LANDLOCK_ACCESS_FS_WRITE_FILE,
      to_int SHIM_LANDLOCK_ACCESS_FS_READ_FILE,
      to_int (SHIM_LANDLOCK_ACCESS_FS_WRITE_FILE OR SHIM_LANDLOCK_ACCESS_FS_READ_FILE),
      to_int SHIM_LANDLOCK_ACCESS_FS_READ_DIR,
      to_int SHIM_LANDLOCK_ACCESS_FS_REMOVE_DIR,
      to_int SHIM_LANDLOCK_ACCESS_FS_REMOVE_FILE,
      to_int SHIM_LANDLOCK_ACCESS_FS_MAKE_CHAR,
      to_int SHIM_LANDLOCK_ACCESS_FS_MAKE_DIR,
      to_int SHIM_LANDLOCK_ACCESS_FS_MAKE_REG,
      to_int SHIM_LANDLOCK_ACCESS_FS_MAKE_SOCK,
      to_int SHIM_LANDLOCK_ACCESS_FS_MAKE_FIFO,
      to_int SHIM_LANDLOCK_ACCESS_FS_MAKE_BLOCK,
      to_int SHIM_LANDLOCK_ACCESS_FS_MAKE_SYM,
      0]"

text \<open>The cast \<open>(uint32_t)landlock_access_flags[i]\<close>.\<close>

definition to_uint32 :: "int \<Rightarrow> 32 word" where
  "to_uint32 i = word_of_int i"

text \<open>
  One entry per call of the harness by the driver: the value of the bogo-operation
  counter (the number of outer passes completed so far), the mask handed over, and the
  failure counter before and after the call.
\<close>

record dispatch =
  t_pass :: nat
  t_mask :: "32 word"
  t_before :: int
  t_after :: int

text \<open>
  The locals of \<open>stress_landlock\<close> that the loop changes, the bogo-operation counter
  that \<open>stress_bogo_inc\<close> increments, and the record of the harness calls made.
\<close>

record drv =
  d_ctxt :: stress_landlock_ctxt_t
  d_failures :: int
  d_bogo :: nat
  d_log :: "dispatch list"

text \<open>
  \<open>stress_landlock_test(args, stress_landlock_flag, &ctxt, &failures)\<close>.  The answers
  of the system for the n-th call of the harness are \<open>ts n\<close>.
\<close>

definition dispatch_test :: "(nat \<Rightarrow> harness_env) \<Rightarrow> drv \<Rightarrow> drv option" where
  "dispatch_test ts s =
     (case stress_landlock_test stress_landlock_flag (ts (length (d_log s))) (d_ctxt s) (d_failures s) of
        None \<Rightarrow> None
      | Some (f, evs) \<Rightarrow>
          Some (s\<lparr>d_failures := f,
                  d_log := d_log s @
                    [\<lparr>t_pass = d_bogo s, t_mask = flag (d_ctxt s),
                      t_before = d_failures s, t_after = f\<rparr>]\<rparr>))"

definition set_flag :: "32 word \<Rightarrow> drv \<Rightarrow> drv" where
  "set_flag m s = s\<lparr>d_ctxt := (d_ctxt s)\<lparr>flag := m\<rparr>\<rparr>"

text \<open>
  How a loop of the driver is left: it ran to its end, it jumped to \<open>err\<close>, or it had
  not ended when the answers of the system ran out (a fork that is retried for ever, a
  \<open>stress_continue\<close> that never says stop).  In the last case the locals are the ones
  reached so far.
\<close>

datatype flow = Fall_through | Goto_err | Running

text \<open>
  The two \<open>for\<close> loops over the table, as recursion over the entries still to come.
\<close>

fun cumulative_loop :: "(nat \<Rightarrow> harness_env) \<Rightarrow> int list \<Rightarrow> drv \<Rightarrow> flow \<times> drv" where
  "cumulative_loop ts [] s = (Fall_through, s)"
| "cumulative_loop ts (f # fs) s =
     (case dispatch_test ts (set_flag (flag (d_ctxt s) OR to_uint32 f) s) of
        None \<Rightarrow> (Running, set_flag (flag (d_ctxt s) OR to_uint32 f) s)
      | Some s' \<Rightarrow> if d_failures s' \<ge> 5 then (Goto_err, s') else cumulative_loop ts fs s')"

fun isolated_loop :: "(nat \<Rightarrow> harness_env) \<Rightarrow> int list \<Rightarrow> drv \<Rightarrow> flow \<times> drv" where
  "isolated_loop ts [] s = (Fall_through, s)"
| "isolated_loop ts (f # fs) s =
     (case dispatch_test ts (set_flag (to_uint32 f) s) of
        None \<Rightarrow> (Running, set_flag (to_uint32 f) s)
      | Some s' \<Rightarrow> if d_failures s' \<ge> 5 then (Goto_err, s') else isolated_loop ts fs s')"

text \<open>\<open>ctxt.flag = ~ctxt.flag\<close>, the harness, the check, and \<open>stress_bogo_inc\<close>.\<close>

definition complement_test :: "(nat \<Rightarrow> harness_env) \<Rightarrow> drv \<Rightarrow> flow \<times> drv" where
  "complement_test ts s =
     (case dispatch_test ts (set_flag (NOT (flag (d_ctxt s))) s) of
        None \<Rightarrow> (Running, set_flag (NOT (flag (d_ctxt s))) s)
      | Some s' \<Rightarrow> if d_failures s' \<ge> 5 then (Goto_err, s')
                  else (Fall_through, s'\<lparr>d_bogo := Suc (d_bogo s')\<rparr>))"

text \<open>The body of the \<open>do ... while\<close> loop: one outer pass.\<close>

definition stress_landlock_pass :: "(nat \<Rightarrow> harness_env) \<Rightarrow> drv \<Rightarrow> flow \<times> drv" where
  "stress_landlock_pass ts s =
     (case cumulative_loop ts landlock_access_flags (set_flag 0 s) of
        (Fall_through, s1) \<Rightarrow>
          (case isolated_loop ts landlock_access_flags s1 of
             (Fall_through, s2) \<Rightarrow> complement_test ts s2
           | r \<Rightarrow> r)
      | r \<Rightarrow> r)"

text \<open>
  The \<open>do ... while (stress_continue(args))\<close> loop; the answers of \<open>stress_continue\<close>
  are consumed from a list, one after each pass that ran to its end.
\<close>

fun stress_landlock_loop :: "(nat \<Rightarrow> harness_env) \<Rightarrow> bool list \<Rightarrow> drv \<Rightarrow> flow \<times> drv" where
  "stress_landlock_loop ts cs s =
     (case stress_landlock_pass ts s of
        (Fall_through, s') \<Rightarrow>
          (case cs of
             [] \<Rightarrow> (Running, s')
           | c # cs' \<Rightarrow> if c then stress_landlock_loop ts cs' s' else (Fall_through, s'))
      | r \<Rightarrow> r)"

text \<open>\<open>PATH_MAX\<close> comes from the system headers; this is its value on Linux.\<close>

definition PATH_MAX :: nat where
  "PATH_MAX = 4096"

text \<open>\<open>snprintf(buf, size, ...)\<close>: at most \<open>size - 1\<close> characters are kept.\<close>

definition snprintf :: "nat \<Rightarrow> string \<Rightarrow> string" where
  "snprintf n str = take (n - 1) str"

fun dec_of_nat :: "nat \<Rightarrow> string" where
  "dec_of_nat n =
     (if n < 10 then [char_of (48 + n)] else dec_of_nat (n div 10) @ [char_of (48 + n mod 10)])"

definition dec_of_int :: "int \<Rightarrow> string" where
  "dec_of_int i = (if i < 0 then CHR ''-'' # dec_of_nat (nat (- i)) else dec_of_nat (nat i))"

text \<open>What the system answers to the driver.\<close>

record driver_env =
  temp_path :: string
  getpid :: int
  many_forks :: "fork_outcome list"
  tests :: "nat \<Rightarrow> harness_env"
  continues :: "bool list"

text \<open>
  The locals at the top of the \<open>do\<close> loop.  \<open>ctxt.flag\<close> has no initialiser; every
  pass writes it before reading it.
\<close>

definition drv_init :: "driver_env \<Rightarrow> drv" where
  "drv_init env =
     \<lparr>d_ctxt = \<lparr>flag = 0,
                filename = snprintf PATH_MAX (temp_path env @ ''/landlock-'' @ dec_of_int (getpid env)),
                path = temp_path env\<rparr>,
      d_failures = 0, d_bogo = 0, d_log = []\<rparr>"

text \<open>
  The driver process: the exit code, the final locals and the driver's own actions
  around the loop; \<open>None\<close> when it has not returned.  When the fork of the enumerator
  gives up, \<open>pid_many\<close> keeps the \<open>-1\<close> that fork returned and the loop runs all the
  same.
\<close>

definition stress_landlock :: "driver_env \<Rightarrow> (int \<times> drv \<times> event list) option" where
  "stress_landlock env =
     (case fork_again (many_forks env) of
        None \<Rightarrow> None
      | Some (r, evs) \<Rightarrow>
          let pid_many = (case r of None \<Rightarrow> - 1 | Some p \<Rightarrow> p)
          in (case stress_landlock_loop (tests env) (continues env) (drv_init env) of
                (Running, s) \<Rightarrow> None
              | (fl, s) \<Rightarrow>
                  Some (EXIT_SUCCESS, s,
                        evs @ [Ev_set_proc_state STRESS_STATE_RUN] @
                        (if pid_many \<noteq> - 1 then [Ev_kill_pid_wait pid_many] else []) @
                        [Ev_set_proc_state STRESS_STATE_DEINIT])))"

text \<open>The harness calls made by a run of the driver, whether it has returned or not.\<close>

definition run_log :: "driver_env \<Rightarrow> dispatch list" where
  "run_log env = d_log (snd (stress_landlock_loop (tests env) (continues env) (drv_init env)))"

subsection \<open>The enumerator: \<open>stress_landlock_many\<close>\<close>

text \<open>
  The directory tree the enumerator walks.  An entry is what \<open>scandir\<close> returns for it
  (name and \<open>d_type\<close>; the filter and the sort have been applied), together with what the
  system answers when the code works on this entry: the result of \<open>realpath\<close>, of the
  \<open>open\<close> of the anchor, of \<open>landlock_add_rule\<close>, and the directory found below it.  A
  directory is the descriptor \<open>landlock_create_ruleset\<close> returns on the visit and the
  entries \<open>scandir\<close> lists (none when \<open>scandir\<close> fails: the loop then runs zero times).
\<close>

datatype d_type = DT_REG | DT_LNK | DT_DIR | DT_OTHER

datatype dirent = Dirent string d_type "string option" int int dir
  and dir = Dir int "dirent list"

text \<open>
  The cases \<open>DT_REG\<close> and \<open>DT_LNK\<close>: the actions, and whether the code goes on to
  the next entry (\<open>break\<close>) or leaves the loop (\<open>goto close_ruleset\<close>).
\<close>

definition add_file_rule :: "int \<Rightarrow> string \<Rightarrow> int \<Rightarrow> int \<Rightarrow> bool \<times> event list" where
  "add_file_rule ruleset resolved anchor ret =
     (if anchor < 0 then (False, [Ev_open resolved O_PATH_NONBLOCK])
      else (\<not> ret < 0,
            [Ev_open resolved O_PATH_NONBLOCK,
             Ev_add_rule ruleset SHIM_LANDLOCK_ACCESS_FS_READ_FILE anchor,
             Ev_close anchor]))"

definition join_path :: "string \<Rightarrow> string \<Rightarrow> string" where
  "join_path p name =
     (if p \<noteq> ''/'' then snprintf PATH_MAX (p @ ''/'' @ name) else snprintf PATH_MAX (''/'' @ name))"

text \<open>
  \<open>stress_landlock_many\<close> and its \<open>for\<close> loop over the entries still to come.  The
  first event marks the call, with its path and depth.
\<close>

fun stress_landlock_many :: "dir \<Rightarrow> string \<Rightarrow> int \<Rightarrow> event list"
  and many_entries :: "int \<Rightarrow> string \<Rightarrow> int \<Rightarrow> dirent list \<Rightarrow> event list" where
  "stress_landlock_many (Dir ruleset ents) p depth =
     Ev_call_many p depth # Ev_create_ruleset SHIM_LANDLOCK_ACCESS_ALL #
     (if ruleset < 0 then [Ev_pr_inf]
      else Ev_scandir p # many_entries ruleset p depth ents)"
| "many_entries ruleset p depth [] = [Ev_close ruleset]"
| "many_entries ruleset p depth (Dirent name ty rp anchor ret sub # es) =
     Ev_realpath (join_path p name) rp #
     (case rp of
        None \<Rightarrow> many_entries ruleset p depth es
      | Some resolved \<Rightarrow>
          if join_path p name = resolved then
            (case ty of
               DT_REG \<Rightarrow>
                 (case add_file_rule ruleset resolved anchor ret of
                    (True, evs) \<Rightarrow> evs @ many_entries ruleset p depth es
                  | (False, evs) \<Rightarrow> evs @ [Ev_close ruleset])
             | DT_LNK \<Rightarrow>
                 (case add_file_rule ruleset resolved anchor ret of
                    (True, evs) \<Rightarrow> evs @ many_entries ruleset p depth es
                  | (False, evs) \<Rightarrow> evs @ [Ev_close ruleset])
             | DT_DIR \<Rightarrow>
                 (if depth < 30 then stress_landlock_many sub resolved (depth + 1) else []) @
                 many_entries ruleset p depth es
             | DT_OTHER \<Rightarrow> many_entries ruleset p depth es)
          else many_entries ruleset p depth es)"

text \<open>
  The enumerator child of the driver: \<open>do stress_landlock_many(args, "/", 0) while
  (stress_continue(args))\<close>, each round with the tree as it is then and the answer of
  \<open>stress_continue\<close>; \<open>None\<close> when the loop was still running at the end of the list.
\<close>

fun enumerator_child :: "(dir \<times> bool) list \<Rightarrow> event list option" where
  "enumerator_child [] = None"
| "enumerator_child ((t, c) # rounds) =
     (if c then map_option ((@) (stress_landlock_many t ''/'' 0)) (enumerator_child rounds)
      else Some (stress_landlock_many t ''/'' 0))"

subsection \<open>Notions used to state the properties\<close>

text \<open>The thirteen atomic access-right flags, in the order of their bits.\<close>

definition atomic_access_flags :: "64 word list" where
  "atomic_access_flags =
     [SHIM_LANDLOCK_ACCESS_FS_EXECUTE, SHIM_LANDLOCK_ACCESS_FS_WRITE_FILE,
      SHIM_LANDLOCK_ACCESS_FS_READ_FILE, SHIM_LANDLOCK_ACCESS_FS_READ_DIR,
      SHIM_LANDLOCK_ACCESS_FS_REMOVE_DIR, SHIM_LANDLOCK_ACCESS_FS_REMOVE_FILE,
      SHIM_LANDLOCK_ACCESS_FS_MAKE_CHAR, SHIM_LANDLOCK_ACCESS_FS_MAKE_DIR,
      SHIM_LANDLOCK_ACCESS_FS_MAKE_REG, SHIM_LANDLOCK_ACCESS_FS_MAKE_SOCK,
      SHIM_LANDLOCK_ACCESS_FS_MAKE_FIFO, SHIM_LANDLOCK_ACCESS_FS_MAKE_BLOCK,
      SHIM_LANDLOCK_ACCESS_FS_MAKE_SYM]"

text \<open>The first harness call made while the bogo counter stood at \<open>k\<close>: the first test of outer pass \<open>k\<close>.\<close>

definition first_of_pass :: "nat \<Rightarrow> dispatch list \<Rightarrow> dispatch option" where
  "first_of_pass k l = find (\<lambda>e. t_pass e = k) l"

text \<open>
  A record of harness calls is well linked from a counter value \<open>f\<close> when every call
  starts from the value the call before it left (the first one from \<open>f\<close>), starts below
  the threshold, and adds nothing or one.  \<open>log_end\<close> is the value the last call left.
\<close>

fun log_wf :: "int \<Rightarrow> dispatch list \<Rightarrow> bool" where
  "log_wf f [] = True"
| "log_wf f (e # es) =
     (t_before e = f \<and> f < 5 \<and> (t_after e = f \<or> t_after e = f + 1) \<and> log_wf (t_after e) es)"

fun log_end :: "int \<Rightarrow> dispatch list \<Rightarrow> int" where
  "log_end f [] = f"
| "log_end f (e # es) = log_end (t_after e) es"

definition drv_inv :: "drv \<Rightarrow> bool" where
  "drv_inv s = (log_wf 0 (d_log s) \<and> log_end 0 (d_log s) = d_failures s)"

definition flow_ok :: "flow \<times> drv \<Rightarrow> bool" where
  "flow_ok r =
     (drv_inv (snd r) \<and>
      (if fst r = Goto_err then 5 \<le> d_failures (snd r) else d_failures (snd r) < 5))"

text \<open>The depths of the calls of \<open>stress_landlock_many\<close> in a trace, in order.\<close>

fun call_depths :: "event list \<Rightarrow> int list" where
  "call_depths [] = []"
| "call_depths (Ev_call_many p d # evs) = d # call_depths evs"
| "call_depths (ev # evs) = call_depths evs"

text \<open>
  The paths a trace acts on (opens, or enters by a call of \<open>stress_landlock_many\<close>), and
  the paths for which \<open>realpath\<close> returned the path it was given.
\<close>

fun acted_paths :: "event list \<Rightarrow> string list" where
  "acted_paths [] = []"
| "acted_paths (Ev_open q fl # evs) = q # acted_paths evs"
| "acted_paths (Ev_call_many q d # evs) = q # acted_paths evs"
| "acted_paths (ev # evs) = acted_paths evs"

fun resolved_same :: "event list \<Rightarrow> string list" where
  "resolved_same [] = []"
| "resolved_same (Ev_realpath q r # evs) =
     (if r = Some q then q # resolved_same evs else resolved_same evs)"
| "resolved_same (ev # evs) = resolved_same evs"

text \<open>How many directories are nested below a directory, and how many directories a tree has.\<close>

fun dir_height :: "dir \<Rightarrow> nat"
  and dirents_height :: "dirent list \<Rightarrow> nat" where
  "dir_height (Dir ruleset ents) = dirents_height ents"
| "dirents_height [] = 0"
| "dirents_height (Dirent name ty rp anchor ret sub # es) =
     max (if ty = DT_DIR then Suc (dir_height sub) else 0) (dirents_height es)"

fun dir_count :: "dir \<Rightarrow> nat"
  and dirents_count :: "dirent list \<Rightarrow> nat" where
  "dir_count (Dir ruleset ents) = Suc (dirents_count ents)"
| "dirents_count [] = 0"
| "dirents_count (Dirent name ty rp anchor ret sub # es) =
     (if ty = DT_DIR then dir_count sub else 0) + dirents_count es"

text \<open>
  The full walk, for comparison: the enumerator as the specification describes it for a
  tree that the depth limit does not cut, that is, \<open>stress_landlock_many\<close> without the
  test \<open>depth < 30\<close>.
\<close>

fun walk_unbounded :: "dir \<Rightarrow> string \<Rightarrow> int \<Rightarrow> event list"
  and walk_entries_unbounded :: "int \<Rightarrow> string \<Rightarrow> int \<Rightarrow> dirent list \<Rightarrow> event list" where
  "walk_unbounded (Dir ruleset ents) p depth =
     Ev_call_many p depth # Ev_create_ruleset SHIM_LANDLOCK_ACCESS_ALL #
     (if ruleset < 0 then [Ev_pr_inf]
      else Ev_scandir p # walk_entries_unbounded ruleset p depth ents)"
| "walk_entries_unbounded ruleset p depth [] = [Ev_close ruleset]"
| "walk_entries_unbounded ruleset p depth (Dirent name ty rp anchor ret sub # es) =
     Ev_realpath (join_path p name) rp #
     (case rp of
        None \<Rightarrow> walk_entries_unbounded ruleset p depth es
      | Some resolved \<Rightarrow>
          if join_path p name = resolved then
            (case ty of
               DT_REG \<Rightarrow>
                 (case add_file_rule ruleset resolved anchor ret of
                    (True, evs) \<Rightarrow> evs @ walk_entries_unbounded ruleset p depth es
                  | (False, evs) \<Rightarrow> evs @ [Ev_close ruleset])
             | DT_LNK \<Rightarrow>
                 (case add_file_rule ruleset resolved anchor ret of
                    (True, evs) \<Rightarrow> evs @ walk_entries_unbounded ruleset p depth es
                  | (False, evs) \<Rightarrow> evs @ [Ev_close ruleset])
             | DT_DIR \<Rightarrow>
                 walk_unbounded sub resolved (depth + 1) @
                 walk_entries_unbounded ruleset p depth es
             | DT_OTHER \<Rightarrow> walk_entries_unbounded ruleset p depth es)
          else walk_entries_unbounded ruleset p depth es)"

subsection \<open>Example inputs\<close>

definition ctxt_ex :: stress_landlock_ctxt_t where
  "ctxt_ex = \<lparr>flag = 1, filename = ''/tmp/landlock-42'', path = ''/tmp''\<rparr>"

text \<open>A kernel that accepts everything; the write-only and read-write opens are denied.\<close>

definition kernel_ok :: flag_env where
  "kernel_ok = \<lparr>creat_fd = 3, version_ret = 1, ruleset_fd = 3, parent_fd = 4, add_rule_ret = 0,
                prctl_ret = 0, restrict_ret = 0, rdonly_fd = 5, wronly_fd = - 1, rdwr_fd = - 1\<rparr>"

definition kernel_restrict_fails :: flag_env where
  "kernel_restrict_fails = kernel_ok\<lparr>restrict_ret := - 1\<rparr>"

definition child_ok :: harness_env where
  "child_ok = \<lparr>forks = [Fork_parent 100], fate = Child_runs kernel_ok, wait = Wait_ok\<rparr>"

text \<open>The child is killed by signal 11.\<close>

definition child_crashes :: harness_env where
  "child_crashes = \<lparr>forks = [Fork_parent 100], fate = Child_killed 11, wait = Wait_ok\<rparr>"

text \<open>Fork fails twice; the second time \<open>stress_redo_fork\<close> says no.\<close>

definition fork_gives_up :: harness_env where
  "fork_gives_up =
     \<lparr>forks = [Fork_failed True, Fork_failed False], fate = Child_runs kernel_ok, wait = Wait_ok\<rparr>"

text \<open>
  \<open>waitpid\<close> fails with an errno other than \<open>EINTR\<close>, and the unwritten \<open>status\<close> reads
  as an exit with status 1.
\<close>

definition wait_fails :: harness_env where
  "wait_fails =
     \<lparr>forks = [Fork_parent 100], fate = Child_runs kernel_ok, wait = Wait_error (W_exited 1)\<rparr>"

text \<open>Two outer passes; the first test of the first pass is counted as a failure.\<close>

definition env_two_passes :: driver_env where
  "env_two_passes =
     \<lparr>temp_path = ''/tmp'', getpid = 42, many_forks = [Fork_parent 99],
      tests = (\<lambda>n. if n = 0 then wait_fails else child_ok), continues = [True, False]\<rparr>"

text \<open>The third to the seventh test are counted as failures.\<close>

definition env_five_failures :: driver_env where
  "env_five_failures =
     \<lparr>temp_path = ''/tmp'', getpid = 42, many_forks = [Fork_parent 99],
      tests = (\<lambda>n. if 2 \<le> n \<and> n < 7 then wait_fails else child_ok),
      continues = [True, True, True]\<rparr>"

text \<open>A chain of \<open>n\<close> directories nested below \<open>p\<close>, each with one regular file beside the next directory.\<close>

fun chain_below :: "string \<Rightarrow> nat \<Rightarrow> dir" where
  "chain_below p 0 = Dir 3 []"
| "chain_below p (Suc n) =
     Dir 3 [Dirent ''f'' DT_REG (Some (join_path p ''f'')) 4 0 (Dir 3 []),
            Dirent ''d'' DT_DIR (Some (join_path p ''d'')) 4 0 (chain_below (join_path p ''d'') n)]"

text \<open>A directory entry \<open>lib\<close> of the root that is a symbolic link to \<open>/usr/lib\<close>, listed with type directory.\<close>

definition link_entry :: dirent where
  "link_entry = Dirent ''lib'' DT_DIR (Some ''/usr/lib'') 4 0 (chain_below ''/usr/lib'' 1)"

section \<open>Properties of the per-test child\<close>

text \<open>
  C4.  The per-test child function returns the success exit code on every path, whatever
  the kernel answers and whatever the context: \<open>stress_landlock_flag\<close> returns
  \<open>EXIT_SUCCESS\<close>, which is 0, so a child that runs the function to its end exits with
  status 0.
\<close>

theorem stress_landlock_flag_exit_success:
  "fst (stress_landlock_flag k ctxt) = EXIT_SUCCESS \<and> EXIT_SUCCESS = 0 \<and>
   child_status stress_landlock_flag (Child_runs k) ctxt = W_exited 0"
  by (simp add: stress_landlock_flag_def Let_def EXIT_SUCCESS_def child_status_def)

theorem stress_landlock_flag_exit_success_witness:
  "fst (stress_landlock_flag kernel_restrict_fails ctxt_ex) = 0 \<and>
   child_status stress_landlock_flag (Child_runs kernel_restrict_fails) ctxt_ex = W_exited 0"
  using stress_landlock_flag_exit_success [of kernel_restrict_fails ctxt_ex] by simp

text \<open>The trace of a run that reaches the restriction step.\<close>

lemma flag_events_restricted:
  assumes "\<not> ruleset_fd k < 0" "\<not> parent_fd k < 0" "\<not> add_rule_ret k < 0" "\<not> prctl_ret k < 0"
  shows "snd (stress_landlock_flag k c) =
     open_and_close (filename c) O_CREAT_RDWR_CLOEXEC (creat_fd k) @
     [Ev_create_ruleset_version, Ev_create_ruleset SHIM_LANDLOCK_ACCESS_ALL,
      Ev_open (path c) O_PATH, Ev_add_rule (ruleset_fd k) (ucast (flag c)) (parent_fd k),
      Ev_prctl_no_new_privs, Ev_restrict_self (ruleset_fd k)] @
     (if restrict_ret k < 0 then [Ev_pr_inf] else sanity_opens k c) @ close_parent k"
  using assms by (simp add: stress_landlock_flag_def Let_def)

text \<open>
  C3, as amended.  In every run of \<open>stress_landlock_flag\<close> in which the ruleset was
  created, the anchor opened, the rule attached and no-new-privileges set, the read-only,
  write-only and read-write opens of the ephemeral file and its unlink are performed
  exactly when \<open>restrictSelf\<close> succeeded; when \<open>restrictSelf\<close> fails, none of the four
  is performed.
\<close>

theorem sanity_opens_iff_restricted:
  assumes "\<not> ruleset_fd k < 0" "\<not> parent_fd k < 0" "\<not> add_rule_ret k < 0" "\<not> prctl_ret k < 0"
  shows "if restrict_ret k < 0
         then Ev_open (filename c) O_RDONLY \<notin> set (snd (stress_landlock_flag k c)) \<and>
              Ev_open (filename c) O_WRONLY \<notin> set (snd (stress_landlock_flag k c)) \<and>
              Ev_open (filename c) O_RDWR \<notin> set (snd (stress_landlock_flag k c)) \<and>
              Ev_unlink (filename c) \<notin> set (snd (stress_landlock_flag k c))
         else Ev_open (filename c) O_RDONLY \<in> set (snd (stress_landlock_flag k c)) \<and>
              Ev_open (filename c) O_WRONLY \<in> set (snd (stress_landlock_flag k c)) \<and>
              Ev_open (filename c) O_RDWR \<in> set (snd (stress_landlock_flag k c)) \<and>
              Ev_unlink (filename c) \<in> set (snd (stress_landlock_flag k c))"
  unfolding flag_events_restricted [OF assms]
  by (simp add: sanity_opens_def open_and_close_def close_parent_def close_ruleset_def)

theorem sanity_opens_iff_restricted_witness:
  "\<not> ruleset_fd kernel_ok < 0 \<and> \<not> parent_fd kernel_ok < 0 \<and>
   \<not> add_rule_ret kernel_ok < 0 \<and> \<not> prctl_ret kernel_ok < 0 \<and> \<not> restrict_ret kernel_ok < 0 \<and>
   Ev_open ''/tmp/landlock-42'' O_RDONLY \<in> set (snd (stress_landlock_flag kernel_ok ctxt_ex)) \<and>
   Ev_open ''/tmp/landlock-42'' O_WRONLY \<in> set (snd (stress_landlock_flag kernel_ok ctxt_ex)) \<and>
   Ev_open ''/tmp/landlock-42'' O_RDWR \<in> set (snd (stress_landlock_flag kernel_ok ctxt_ex)) \<and>
   Ev_unlink ''/tmp/landlock-42'' \<in> set (snd (stress_landlock_flag kernel_ok ctxt_ex))"
proof -
  have h: "\<not> ruleset_fd kernel_ok < 0" "\<not> parent_fd kernel_ok < 0"
    "\<not> add_rule_ret kernel_ok < 0" "\<not> prctl_ret kernel_ok < 0"
    by (simp_all add: kernel_ok_def)
  have r: "\<not> restrict_ret kernel_ok < 0" by (simp add: kernel_ok_def)
  have f: "filename ctxt_ex = ''/tmp/landlock-42''" by (simp add: ctxt_ex_def)
  from sanity_opens_iff_restricted [OF h, of ctxt_ex] h r show ?thesis
    unfolding f by simp
qed

text \<open>
  The claim as it was stated fails when \<open>restrictSelf\<close> is rejected: the rule was
  attached and no-new-privileges was set, and none of the three opens nor the unlink
  takes place.
\<close>

theorem opens_after_failed_restrict_counterexample:
  "Ev_add_rule 3 1 4 \<in> set (snd (stress_landlock_flag kernel_restrict_fails ctxt_ex)) \<and>
   Ev_prctl_no_new_privs \<in> set (snd (stress_landlock_flag kernel_restrict_fails ctxt_ex)) \<and>
   Ev_restrict_self 3 \<in> set (snd (stress_landlock_flag kernel_restrict_fails ctxt_ex)) \<and>
   Ev_open ''/tmp/landlock-42'' O_RDONLY \<notin> set (snd (stress_landlock_flag kernel_restrict_fails ctxt_ex)) \<and>
   Ev_open ''/tmp/landlock-42'' O_WRONLY \<notin> set (snd (stress_landlock_flag kernel_restrict_fails ctxt_ex)) \<and>
   Ev_open ''/tmp/landlock-42'' O_RDWR \<notin> set (snd (stress_landlock_flag kernel_restrict_fails ctxt_ex)) \<and>
   Ev_unlink ''/tmp/landlock-42'' \<notin> set (snd (stress_landlock_flag kernel_restrict_fails ctxt_ex))"
  by (simp add: stress_landlock_flag_def Let_def kernel_restrict_fails_def kernel_ok_def ctxt_ex_def
      open_and_close_def close_parent_def close_ruleset_def)

section \<open>Properties of the subprocess test harness\<close>

text \<open>The harness, path by path.\<close>

lemma test_cases:
  "stress_landlock_test func h c f =
     (case fork_again (forks h) of
        None \<Rightarrow> None
      | Some (None, evs) \<Rightarrow> Some (f, evs)
      | Some (Some pid, evs) \<Rightarrow>
         (case wait h of
            Wait_eintr \<Rightarrow>
              Some (f, evs @ [Ev_waitpid pid, Ev_kill_pid_wait pid, Ev_unlink (filename c)])
          | Wait_ok \<Rightarrow>
              (case child_status func (fate h) c of
                 W_exited rc \<Rightarrow>
                   Some (if rc \<noteq> 0 then f + 1 else f,
                         evs @ [Ev_waitpid pid, Ev_unlink (filename c)])
               | W_signaled sig \<Rightarrow> Some (f, evs @ [Ev_waitpid pid, Ev_unlink (filename c)]))
          | Wait_error st \<Rightarrow>
              (case st of
                 W_exited rc \<Rightarrow>
                   Some (if rc \<noteq> 0 then f + 1 else f,
                         evs @ [Ev_waitpid pid, Ev_pr_err, Ev_unlink (filename c)])
               | W_signaled sig \<Rightarrow>
                   Some (f, evs @ [Ev_waitpid pid, Ev_pr_err, Ev_unlink (filename c)]))))"
  by (simp add: stress_landlock_test_def Let_def EXIT_SUCCESS_def
      split: option.splits wait_outcome.splits wstatus.splits prod.splits)

lemma fork_again_events:
  "fork_again fs = Some (r, evs) \<Longrightarrow> set evs \<subseteq> range Ev_fork \<union> range Ev_redo_fork"
  by (induction fs arbitrary: r evs rule: fork_again.induct) (auto split: option.splits)

lemma test_failures_step:
  "stress_landlock_test func h c f = Some (f', evs) \<Longrightarrow> f' = f \<or> f' = f + 1"
  by (auto simp: test_cases split: option.splits wait_outcome.splits wstatus.splits if_splits)

lemma test_returns:
  "fork_again (forks h) \<noteq> None \<Longrightarrow> stress_landlock_test func h c f \<noteq> None"
  by (auto simp: test_cases split: option.splits wait_outcome.splits wstatus.splits)

text \<open>
  C2, as amended.  The harness adds one to the Failure Counter exactly when a child was
  forked and the status the parent inspects is a normal exit with a non-zero status (the
  child's status after a successful wait, or the content of \<open>status\<close> after a wait that
  failed with an errno other than \<open>EINTR\<close>); in every other case the counter keeps its
  value.  In particular a child that terminates abnormally, killed by a signal, is not
  counted.
\<close>

theorem failure_counted_iff_nonzero_exit:
  assumes "stress_landlock_test func h c f = Some (f', evs)"
  shows "f' = (if (\<exists>pid evs0. fork_again (forks h) = Some (Some pid, evs0)) \<and>
                  (\<exists>rc. rc \<noteq> EXIT_SUCCESS \<and>
                        (wait h = Wait_ok \<and> child_status func (fate h) c = W_exited rc \<or>
                         wait h = Wait_error (W_exited rc)))
               then f + 1 else f) \<and>
         (\<forall>sig. wait h = Wait_ok \<and> child_status func (fate h) c = W_signaled sig \<longrightarrow> f' = f)"
  using assms
  by (auto simp: test_cases EXIT_SUCCESS_def
      split: option.splits wait_outcome.splits wstatus.splits if_splits)

theorem failure_counted_iff_nonzero_exit_witness:
  "stress_landlock_test stress_landlock_flag wait_fails ctxt_ex 3 =
     Some (4, [Ev_fork 100, Ev_waitpid 100, Ev_pr_err, Ev_unlink ''/tmp/landlock-42'']) \<and>
   fork_again (forks wait_fails) = Some (Some 100, [Ev_fork 100]) \<and>
   wait wait_fails = Wait_error (W_exited 1) \<and> (4 :: int) = 3 + 1"
proof -
  have h: "stress_landlock_test stress_landlock_flag wait_fails ctxt_ex 3 =
     Some (4, [Ev_fork 100, Ev_waitpid 100, Ev_pr_err, Ev_unlink ''/tmp/landlock-42''])"
    by (simp add: test_cases wait_fails_def ctxt_ex_def)
  have g: "fork_again (forks wait_fails) = Some (Some 100, [Ev_fork 100])"
    "wait wait_fails = Wait_error (W_exited 1)"
    by (simp_all add: wait_fails_def)
  from failure_counted_iff_nonzero_exit [OF h] h g show ?thesis by simp
qed

text \<open>
  The claim as it was stated fails for a child killed by a signal: the wait succeeds,
  the child did not exit normally, and the counter stays at 0.
\<close>

theorem signalled_child_counted_counterexample:
  "child_status stress_landlock_flag (fate child_crashes) ctxt_ex = W_signaled 11 \<and>
   wait child_crashes = Wait_ok \<and>
   stress_landlock_test stress_landlock_flag child_crashes ctxt_ex 0 =
     Some (0, [Ev_fork 100, Ev_waitpid 100, Ev_unlink ''/tmp/landlock-42''])"
  by (simp add: test_cases child_crashes_def ctxt_ex_def child_status_def)

text \<open>
  C7, as amended.  On every return of the harness after a child was forked (a normal
  exit with any status, an abnormal termination, an interrupted wait, a failed wait) the
  unlink of the context's filename is the last action before the return.  When fork
  fails and the retry policy gives up, the harness returns without an unlink, leaving
  the counter as it was; no child was started then.
\<close>

theorem unlink_on_return_after_fork:
  assumes "stress_landlock_test func h c f = Some (f', evs)"
  shows "(\<forall>pid evs0. fork_again (forks h) = Some (Some pid, evs0) \<longrightarrow>
            evs \<noteq> [] \<and> last evs = Ev_unlink (filename c) \<and> Ev_waitpid pid \<in> set evs) \<and>
         (\<forall>evs0. fork_again (forks h) = Some (None, evs0) \<longrightarrow>
            evs = evs0 \<and> Ev_unlink (filename c) \<notin> set evs \<and> f' = f)"
proof -
  have a: "evs \<noteq> [] \<and> last evs = Ev_unlink (filename c) \<and> Ev_waitpid pid \<in> set evs"
    if "fork_again (forks h) = Some (Some pid, evs0)" for pid evs0
    using assms that
    by (auto simp: test_cases split: wait_outcome.splits wstatus.splits)
  have b: "evs = evs0 \<and> Ev_unlink (filename c) \<notin> set evs \<and> f' = f"
    if "fork_again (forks h) = Some (None, evs0)" for evs0
    using assms that fork_again_events [OF that]
    by (auto simp: test_cases)
  from a b show ?thesis by blast
qed

theorem unlink_on_return_after_fork_witness:
  "stress_landlock_test stress_landlock_flag child_crashes ctxt_ex 0 =
     Some (0, [Ev_fork 100, Ev_waitpid 100, Ev_unlink ''/tmp/landlock-42'']) \<and>
   fork_again (forks child_crashes) = Some (Some 100, [Ev_fork 100]) \<and>
   last [Ev_fork 100, Ev_waitpid 100, Ev_unlink ''/tmp/landlock-42''] = Ev_unlink (filename ctxt_ex)"
proof -
  have h: "stress_landlock_test stress_landlock_flag child_crashes ctxt_ex 0 =
     Some (0, [Ev_fork 100, Ev_waitpid 100, Ev_unlink ''/tmp/landlock-42''])"
    by (simp add: test_cases child_crashes_def ctxt_ex_def child_status_def)
  have g: "fork_again (forks child_crashes) = Some (Some 100, [Ev_fork 100])"
    by (simp add: child_crashes_def)
  from unlink_on_return_after_fork [OF h] h g show ?thesis by blast
qed

text \<open>
  The claim as it was stated fails on the return after a fork failure: the harness
  returns, and no unlink has been performed.
\<close>

theorem unlink_on_fork_failure_counterexample:
  "stress_landlock_test stress_landlock_flag fork_gives_up ctxt_ex 0 =
     Some (0, [Ev_fork (- 1), Ev_redo_fork True, Ev_fork (- 1), Ev_redo_fork False]) \<and>
   Ev_unlink (filename ctxt_ex) \<notin>
     set [Ev_fork (- 1), Ev_redo_fork True, Ev_fork (- 1), Ev_redo_fork False]"
  by (simp add: test_cases fork_gives_up_def)

section \<open>Properties of the driver\<close>

subsection \<open>The flag table\<close>

lemma table_values:
  "landlock_access_flags = [1, 2, 4, 6, 8, 16, 32, 64, 128, 256, 512, 1024, 2048, 4096, 0]"
  by (simp add: landlock_access_flags_def shim_access_defs to_int_def)

lemma table_masks:
  "map to_uint32 landlock_access_flags =
     [1, 2, 4, 6, 8, 16, 32, 64, 128, 256, 512, 1024, 2048, 4096, 0]"
  by (simp add: table_values to_uint32_def)

lemma table_shape:
  "landlock_access_flags =
     map to_int (take 3 atomic_access_flags @
                 [SHIM_LANDLOCK_ACCESS_FS_WRITE_FILE OR SHIM_LANDLOCK_ACCESS_FS_READ_FILE] @
                 drop 3 atomic_access_flags) @ [0]"
  by (simp add: landlock_access_flags_def atomic_access_flags_def)

lemma atomic_values: "atomic_access_flags = map (\<lambda>i. push_bit i 1) [0..<13]"
  by (simp add: atomic_access_flags_def shim_access_defs upt_rec)

lemma atomic_ints:
  "map to_int atomic_access_flags = [1, 2, 4, 8, 16, 32, 64, 128, 256, 512, 1024, 2048, 4096]"
  by (simp add: atomic_access_flags_def shim_access_defs to_int_def)

subsection \<open>One call of the harness\<close>

lemma set_flag_simps [simp]:
  "d_log (set_flag m s) = d_log s" "d_failures (set_flag m s) = d_failures s"
  "d_bogo (set_flag m s) = d_bogo s" "flag (d_ctxt (set_flag m s)) = m"
  "filename (d_ctxt (set_flag m s)) = filename (d_ctxt s)"
  "path (d_ctxt (set_flag m s)) = path (d_ctxt s)"
  by (simp_all add: set_flag_def)

lemma dispatch_test_Some:
  assumes "dispatch_test ts s = Some s'"
  shows "d_log s' = d_log s @ [\<lparr>t_pass = d_bogo s, t_mask = flag (d_ctxt s),
                                 t_before = d_failures s, t_after = d_failures s'\<rparr>]"
    and "d_failures s' = d_failures s \<or> d_failures s' = d_failures s + 1"
    and "d_ctxt s' = d_ctxt s" and "d_bogo s' = d_bogo s"
  using assms
  by (auto simp: dispatch_test_def split: option.splits dest: test_failures_step)

lemma dispatch_returns:
  "\<forall>n. fork_again (forks (ts n)) \<noteq> None \<Longrightarrow> dispatch_test ts s \<noteq> None"
  using test_returns [of "ts (length (d_log s))" stress_landlock_flag "d_ctxt s" "d_failures s"]
  by (auto simp: dispatch_test_def split: option.splits)

subsection \<open>The record of harness calls is well linked\<close>

lemma log_end_append: "log_end f (xs @ [e]) = t_after e"
  by (induction xs arbitrary: f) auto

lemma log_wf_append:
  "log_wf f (xs @ [e]) =
     (log_wf f xs \<and> t_before e = log_end f xs \<and> log_end f xs < 5 \<and>
      (t_after e = log_end f xs \<or> t_after e = log_end f xs + 1))"
  by (induction xs arbitrary: f) auto

lemma log_wf_nth:
  "log_wf f xs \<Longrightarrow> Suc i < length xs \<Longrightarrow>
     t_before (xs ! Suc i) = t_after (xs ! i) \<and> t_after (xs ! i) < 5"
proof (induction xs arbitrary: f i)
  case Nil
  then show ?case by simp
next
  case (Cons e es)
  show ?case
  proof (cases i)
    case 0
    with Cons.prems show ?thesis by (cases es) auto
  next
    case (Suc j)
    with Cons.prems Cons.IH [of "t_after e" j] show ?thesis by simp
  qed
qed

lemma log_wf_hd: "log_wf f xs \<Longrightarrow> xs \<noteq> [] \<Longrightarrow> t_before (hd xs) = f"
  by (cases xs) auto

lemma log_wf_set: "log_wf f xs \<Longrightarrow> e \<in> set xs \<Longrightarrow> t_before e < 5 \<and> t_after e \<le> 5"
  by (induction xs arbitrary: f) auto

lemma drv_inv_set_flag [simp]: "drv_inv (set_flag m s) = drv_inv s"
  by (simp add: drv_inv_def)

lemma drv_inv_dispatch:
  assumes "drv_inv s" "d_failures s < 5" "dispatch_test ts s = Some s'"
  shows "drv_inv s'"
  using assms dispatch_test_Some [OF assms(3)]
  by (auto simp: drv_inv_def log_wf_append log_end_append)

lemma cumulative_loop_inv:
  "drv_inv s \<Longrightarrow> d_failures s < 5 \<Longrightarrow> flow_ok (cumulative_loop ts fs s)"
proof (induction fs arbitrary: s)
  case Nil
  then show ?case by (simp add: flow_ok_def)
next
  case (Cons f fs)
  show ?case
  proof (cases "dispatch_test ts (set_flag (flag (d_ctxt s) OR to_uint32 f) s)")
    case None
    with Cons.prems show ?thesis by (simp add: flow_ok_def)
  next
    case (Some s')
    from Cons.prems have "drv_inv s'"
      using drv_inv_dispatch [OF _ _ Some] by simp
    with Some Cons.IH [of s'] show ?thesis by (simp add: flow_ok_def)
  qed
qed

lemma isolated_loop_inv:
  "drv_inv s \<Longrightarrow> d_failures s < 5 \<Longrightarrow> flow_ok (isolated_loop ts fs s)"
proof (induction fs arbitrary: s)
  case Nil
  then show ?case by (simp add: flow_ok_def)
next
  case (Cons f fs)
  show ?case
  proof (cases "dispatch_test ts (set_flag (to_uint32 f) s)")
    case None
    with Cons.prems show ?thesis by (simp add: flow_ok_def)
  next
    case (Some s')
    from Cons.prems have "drv_inv s'"
      using drv_inv_dispatch [OF _ _ Some] by simp
    with Some Cons.IH [of s'] show ?thesis by (simp add: flow_ok_def)
  qed
qed

lemma complement_test_inv:
  assumes "drv_inv s" "d_failures s < 5"
  shows "flow_ok (complement_test ts s)"
proof (cases "dispatch_test ts (set_flag (NOT (flag (d_ctxt s))) s)")
  case None
  with assms show ?thesis by (simp add: flow_ok_def complement_test_def)
next
  case (Some s')
  from assms have "drv_inv s'"
    using drv_inv_dispatch [OF _ _ Some] by simp
  with Some show ?thesis by (simp add: flow_ok_def complement_test_def drv_inv_def)
qed

lemma stress_landlock_pass_inv:
  assumes "drv_inv s" "d_failures s < 5"
  shows "flow_ok (stress_landlock_pass ts s)"
proof -
  obtain fl1 s1 where c: "cumulative_loop ts landlock_access_flags (set_flag 0 s) = (fl1, s1)"
    by (cases "cumulative_loop ts landlock_access_flags (set_flag 0 s)")
  have ok1: "flow_ok (fl1, s1)"
    using cumulative_loop_inv [of "set_flag 0 s" ts landlock_access_flags] assms c by simp
  show ?thesis
  proof (cases "fl1 = Fall_through")
    case False
    with c ok1 show ?thesis by (cases fl1) (simp_all add: stress_landlock_pass_def)
  next
    case True
    obtain fl2 s2 where i: "isolated_loop ts landlock_access_flags s1 = (fl2, s2)"
      by (cases "isolated_loop ts landlock_access_flags s1")
    have ok2: "flow_ok (fl2, s2)"
      using isolated_loop_inv [of s1 ts landlock_access_flags] ok1 True i
      by (auto simp: flow_ok_def split: if_splits)
    show ?thesis
    proof (cases "fl2 = Fall_through")
      case False
      with c i True ok2 show ?thesis by (cases fl2) (simp_all add: stress_landlock_pass_def)
    next
      case t2: True
      have "flow_ok (complement_test ts s2)"
        using complement_test_inv [of s2 ts] ok2 t2 by (simp add: flow_ok_def)
      with c i True t2 show ?thesis by (simp add: stress_landlock_pass_def)
    qed
  qed
qed

declare stress_landlock_loop.simps [simp del]

lemma stress_landlock_loop_inv:
  "drv_inv s \<Longrightarrow> d_failures s < 5 \<Longrightarrow> flow_ok (stress_landlock_loop ts cs s)"
proof (induction cs arbitrary: s)
  case Nil
  obtain fl s' where p: "stress_landlock_pass ts s = (fl, s')"
    by (cases "stress_landlock_pass ts s")
  with stress_landlock_pass_inv [OF Nil.prems, of ts] show ?case
    by (cases fl) (simp_all add: stress_landlock_loop.simps [of ts "[]" s] flow_ok_def)
next
  case (Cons c cs)
  obtain fl s' where p: "stress_landlock_pass ts s = (fl, s')"
    by (cases "stress_landlock_pass ts s")
  with stress_landlock_pass_inv [OF Cons.prems, of ts] Cons.IH [of s'] show ?case
    by (cases fl) (simp_all add: stress_landlock_loop.simps [of ts "c # cs" s] flow_ok_def)
qed

lemma drv_init_inv: "drv_inv (drv_init env)" "d_failures (drv_init env) < 5"
  by (simp_all add: drv_inv_def drv_init_def)

lemma run_inv: "flow_ok (stress_landlock_loop ts cs (drv_init env))"
  by (rule stress_landlock_loop_inv [OF drv_init_inv])

lemma run_log_wf: "log_wf 0 (run_log env)"
  using run_inv [of "tests env" "continues env" env]
  by (simp add: flow_ok_def drv_inv_def run_log_def)

subsection \<open>When the driver returns\<close>

lemma cumulative_loop_returns:
  "\<forall>n. fork_again (forks (ts n)) \<noteq> None \<Longrightarrow> fst (cumulative_loop ts fs s) \<noteq> Running"
proof (induction fs arbitrary: s)
  case Nil
  then show ?case by simp
next
  case (Cons f fs)
  from dispatch_returns [OF Cons.prems] obtain s' where
    "dispatch_test ts (set_flag (flag (d_ctxt s) OR to_uint32 f) s) = Some s'" by blast
  with Cons.IH [OF Cons.prems, of s'] show ?case by simp
qed

lemma isolated_loop_returns:
  "\<forall>n. fork_again (forks (ts n)) \<noteq> None \<Longrightarrow> fst (isolated_loop ts fs s) \<noteq> Running"
proof (induction fs arbitrary: s)
  case Nil
  then show ?case by simp
next
  case (Cons f fs)
  from dispatch_returns [OF Cons.prems] obtain s' where
    "dispatch_test ts (set_flag (to_uint32 f) s) = Some s'" by blast
  with Cons.IH [OF Cons.prems, of s'] show ?case by simp
qed

lemma complement_test_returns:
  assumes "\<forall>n. fork_again (forks (ts n)) \<noteq> None"
  shows "fst (complement_test ts s) \<noteq> Running"
proof -
  from dispatch_returns [OF assms] obtain s' where
    "dispatch_test ts (set_flag (NOT (flag (d_ctxt s))) s) = Some s'" by blast
  then show ?thesis by (simp add: complement_test_def)
qed

lemma stress_landlock_pass_returns:
  assumes "\<forall>n. fork_again (forks (ts n)) \<noteq> None"
  shows "fst (stress_landlock_pass ts s) \<noteq> Running"
proof -
  obtain fl1 s1 where c: "cumulative_loop ts landlock_access_flags (set_flag 0 s) = (fl1, s1)"
    by (cases "cumulative_loop ts landlock_access_flags (set_flag 0 s)")
  obtain fl2 s2 where i: "isolated_loop ts landlock_access_flags s1 = (fl2, s2)"
    by (cases "isolated_loop ts landlock_access_flags s1")
  from c cumulative_loop_returns [OF assms, of landlock_access_flags "set_flag 0 s"]
  have r1: "fl1 \<noteq> Running" by simp
  from i isolated_loop_returns [OF assms, of landlock_access_flags s1]
  have r2: "fl2 \<noteq> Running" by simp
  from c i r1 r2 complement_test_returns [OF assms, of s2] show ?thesis
    by (cases fl1; cases fl2) (simp_all add: stress_landlock_pass_def)
qed

lemma stress_landlock_loop_returns:
  assumes "\<forall>n. fork_again (forks (ts n)) \<noteq> None"
  shows "False \<in> set cs \<Longrightarrow> fst (stress_landlock_loop ts cs s) \<noteq> Running"
proof (induction cs arbitrary: s)
  case Nil
  then show ?case by simp
next
  case (Cons c cs)
  obtain fl s' where p: "stress_landlock_pass ts s = (fl, s')"
    by (cases "stress_landlock_pass ts s")
  with stress_landlock_pass_returns [OF assms, of s] have "fl \<noteq> Running" by simp
  with p Cons show ?case
    by (cases fl) (auto simp: stress_landlock_loop.simps [of ts "c # cs" s])
qed

text \<open>
  The driver returns, with \<open>EXIT_SUCCESS\<close>, as soon as every fork loop ends and
  \<open>stress_continue\<close> says stop at some point.
\<close>

lemma stress_landlock_returns:
  assumes "fork_again (many_forks env) \<noteq> None" "\<forall>n. fork_again (forks (tests env n)) \<noteq> None"
    "False \<in> set (continues env)"
  shows "\<exists>s evs. stress_landlock env = Some (EXIT_SUCCESS, s, evs)"
  using assms(1) stress_landlock_loop_returns [OF assms(2,3), of "drv_init env"]
  by (auto simp: stress_landlock_def Let_def split: option.splits prod.splits flow.splits)

text \<open>A run that aborts has returned as well.\<close>

lemma stress_landlock_aborted_returns:
  assumes "fork_again (many_forks env) \<noteq> None"
    "fst (stress_landlock_loop (tests env) (continues env) (drv_init env)) = Goto_err"
  shows "\<exists>evs. stress_landlock env =
           Some (EXIT_SUCCESS, snd (stress_landlock_loop (tests env) (continues env) (drv_init env)), evs)"
  using assms
  by (auto simp: stress_landlock_def Let_def split: option.splits prod.splits flow.splits)

subsection \<open>The masks of the isolated pass and of the complement test\<close>

lemma isolated_loop_masks:
  "\<exists>new n. n \<le> length fs \<and> d_log (snd (isolated_loop ts fs s)) = d_log s @ new \<and>
       map t_mask new = map to_uint32 (take n fs) \<and>
       (fst (isolated_loop ts fs s) = Fall_through \<longrightarrow> n = length fs) \<and>
       (fst (isolated_loop ts fs s) = Fall_through \<longrightarrow> fs \<noteq> [] \<longrightarrow>
          flag (d_ctxt (snd (isolated_loop ts fs s))) = to_uint32 (last fs))"
proof (induction fs arbitrary: s)
  case Nil
  then show ?case by simp
next
  case (Cons f fs)
  show ?case
  proof (cases "dispatch_test ts (set_flag (to_uint32 f) s)")
    case None
    then show ?thesis
      by (intro exI [of _ "[]"] exI [of _ 0]) simp
  next
    case (Some s')
    note d = dispatch_test_Some [OF Some]
    show ?thesis
    proof (cases "5 \<le> d_failures s'")
      case True
      with Some d(1) show ?thesis
        by (intro exI [of _ "[\<lparr>t_pass = d_bogo s, t_mask = to_uint32 f,
              t_before = d_failures s, t_after = d_failures s'\<rparr>]"] exI [of _ 1]) simp
    next
      case False
      from Cons.IH [of s'] obtain new n where
        n: "n \<le> length fs" "d_log (snd (isolated_loop ts fs s')) = d_log s' @ new"
           "map t_mask new = map to_uint32 (take n fs)"
           "fst (isolated_loop ts fs s') = Fall_through \<longrightarrow> n = length fs"
           "fst (isolated_loop ts fs s') = Fall_through \<longrightarrow> fs \<noteq> [] \<longrightarrow>
              flag (d_ctxt (snd (isolated_loop ts fs s'))) = to_uint32 (last fs)"
        by blast
      have e: "fs = [] \<Longrightarrow> flag (d_ctxt (snd (isolated_loop ts fs s'))) = to_uint32 f"
        using d(3) by simp
      from Some False n d(1) e show ?thesis
        by (intro exI [of _ "\<lparr>t_pass = d_bogo s, t_mask = to_uint32 f,
              t_before = d_failures s, t_after = d_failures s'\<rparr> # new"] exI [of _ "Suc n"]) auto
    qed
  qed
qed

lemma isolated_final_flag:
  assumes "fst (isolated_loop ts landlock_access_flags s) = Fall_through"
  shows "flag (d_ctxt (snd (isolated_loop ts landlock_access_flags s))) = 0"
proof -
  from isolated_loop_masks [of landlock_access_flags ts s] assms
  have "flag (d_ctxt (snd (isolated_loop ts landlock_access_flags s))) =
        to_uint32 (last landlock_access_flags)"
    by (auto simp: table_values)
  then show ?thesis by (simp add: table_values to_uint32_def)
qed

lemma complement_test_mask:
  assumes "fst (complement_test ts s) \<noteq> Running"
  shows "d_log (snd (complement_test ts s)) \<noteq> [] \<and>
         t_mask (last (d_log (snd (complement_test ts s)))) = NOT (flag (d_ctxt s))"
proof (cases "dispatch_test ts (set_flag (NOT (flag (d_ctxt s))) s)")
  case None
  with assms show ?thesis by (simp add: complement_test_def)
next
  case (Some s')
  from dispatch_test_Some(1) [OF Some] Some show ?thesis
    by (simp add: complement_test_def)
qed

lemma pass_complement_mask:
  assumes "fst (stress_landlock_pass ts s) = Fall_through"
  shows "d_log (snd (stress_landlock_pass ts s)) \<noteq> [] \<and>
         t_mask (last (d_log (snd (stress_landlock_pass ts s)))) = 0xFFFFFFFF"
proof -
  obtain fl1 s1 where c: "cumulative_loop ts landlock_access_flags (set_flag 0 s) = (fl1, s1)"
    by (cases "cumulative_loop ts landlock_access_flags (set_flag 0 s)")
  obtain fl2 s2 where i: "isolated_loop ts landlock_access_flags s1 = (fl2, s2)"
    by (cases "isolated_loop ts landlock_access_flags s1")
  from assms c have f1: "fl1 = Fall_through"
    by (cases fl1) (simp_all add: stress_landlock_pass_def)
  from assms c i f1 have f2: "fl2 = Fall_through"
    by (cases fl2) (simp_all add: stress_landlock_pass_def)
  from c i f1 f2 have p: "stress_landlock_pass ts s = complement_test ts s2"
    by (simp add: stress_landlock_pass_def)
  from isolated_final_flag [of ts s1] i f2 have z: "flag (d_ctxt s2) = 0" by simp
  from complement_test_mask [of ts s2] assms p z show ?thesis by simp
qed

lemma add_rule_in_flag:
  "Ev_add_rule r aa a \<in> set (snd (stress_landlock_flag k c)) \<Longrightarrow> aa = ucast (flag c)"
  by (auto simp: stress_landlock_flag_def Let_def open_and_close_def close_parent_def
      close_ruleset_def sanity_opens_def split: if_splits)

lemma ucast_32_64_high: "drop_bit 32 (ucast (w :: 32 word) :: 64 word) = 0"
  by (rule bit_eqI) (auto simp: bit_drop_bit_eq bit_ucast_iff dest: bit_imp_le_length)

subsection \<open>Runs of the examples\<close>

lemma two_pass_log:
  "run_log env_two_passes =
     [\<lparr>t_pass = 0, t_mask = 1, t_before = 0, t_after = 1\<rparr>,
      \<lparr>t_pass = 0, t_mask = 3, t_before = 1, t_after = 1\<rparr>,
      \<lparr>t_pass = 0, t_mask = 7, t_before = 1, t_after = 1\<rparr>,
      \<lparr>t_pass = 0, t_mask = 7, t_before = 1, t_after = 1\<rparr>,
      \<lparr>t_pass = 0, t_mask = 15, t_before = 1, t_after = 1\<rparr>,
      \<lparr>t_pass = 0, t_mask = 31, t_before = 1, t_after = 1\<rparr>,
      \<lparr>t_pass = 0, t_mask = 63, t_before = 1, t_after = 1\<rparr>,
      \<lparr>t_pass = 0, t_mask = 127, t_before = 1, t_after = 1\<rparr>,
      \<lparr>t_pass = 0, t_mask = 255, t_before = 1, t_after = 1\<rparr>,
      \<lparr>t_pass = 0, t_mask = 511, t_before = 1, t_after = 1\<rparr>,
      \<lparr>t_pass = 0, t_mask = 1023, t_before = 1, t_after = 1\<rparr>,
      \<lparr>t_pass = 0, t_mask = 2047, t_before = 1, t_after = 1\<rparr>,
      \<lparr>t_pass = 0, t_mask = 4095, t_before = 1, t_after = 1\<rparr>,
      \<lparr>t_pass = 0, t_mask = 8191, t_before = 1, t_after = 1\<rparr>,
      \<lparr>t_pass = 0, t_mask = 8191, t_before = 1, t_after = 1\<rparr>,
      \<lparr>t_pass = 0, t_mask = 1, t_before = 1, t_after = 1\<rparr>,
      \<lparr>t_pass = 0, t_mask = 2, t_before = 1, t_after = 1\<rparr>,
      \<lparr>t_pass = 0, t_mask = 4, t_before = 1, t_after = 1\<rparr>,
      \<lparr>t_pass = 0, t_mask = 6, t_before = 1, t_after = 1\<rparr>,
      \<lparr>t_pass = 0, t_mask = 8, t_before = 1, t_after = 1\<rparr>,
      \<lparr>t_pass = 0, t_mask = 16, t_before = 1, t_after = 1\<rparr>,
      \<lparr>t_pass = 0, t_mask = 32, t_before = 1, t_after = 1\<rparr>,
      \<lparr>t_pass = 0, t_mask = 64, t_before = 1, t_after = 1\<rparr>,
      \<lparr>t_pass = 0, t_mask = 128, t_before = 1, t_after = 1\<rparr>,
      \<lparr>t_pass = 0, t_mask = 256, t_before = 1, t_after = 1\<rparr>,
      \<lparr>t_pass = 0, t_mask = 512, t_before = 1, t_after = 1\<rparr>,
      \<lparr>t_pass = 0, t_mask = 1024, t_before = 1, t_after = 1\<rparr>,
      \<lparr>t_pass = 0, t_mask = 2048, t_before = 1, t_after = 1\<rparr>,
      \<lparr>t_pass = 0, t_mask = 4096, t_before = 1, t_after = 1\<rparr>,
      \<lparr>t_pass = 0, t_mask = 0, t_before = 1, t_after = 1\<rparr>,
      \<lparr>t_pass = 0, t_mask = 4294967295, t_before = 1, t_after = 1\<rparr>,
      \<lparr>t_pass = 1, t_mask = 1, t_before = 1, t_after = 1\<rparr>,
      \<lparr>t_pass = 1, t_mask = 3, t_before = 1, t_after = 1\<rparr>,
      \<lparr>t_pass = 1, t_mask = 7, t_before = 1, t_after = 1\<rparr>,
      \<lparr>t_pass = 1, t_mask = 7, t_before = 1, t_after = 1\<rparr>,
      \<lparr>t_pass = 1, t_mask = 15, t_before = 1, t_after = 1\<rparr>,
      \<lparr>t_pass = 1, t_mask = 31, t_before = 1, t_after = 1\<rparr>,
      \<lparr>t_pass = 1, t_mask = 63, t_before = 1, t_after = 1\<rparr>,
      \<lparr>t_pass = 1, t_mask = 127, t_before = 1, t_after = 1\<rparr>,
      \<lparr>t_pass = 1, t_mask = 255, t_before = 1, t_after = 1\<rparr>,
      \<lparr>t_pass = 1, t_mask = 511, t_before = 1, t_after = 1\<rparr>,
      \<lparr>t_pass = 1, t_mask = 1023, t_before = 1, t_after = 1\<rparr>,
      \<lparr>t_pass = 1, t_mask = 2047, t_before = 1, t_after = 1\<rparr>,
      \<lparr>t_pass = 1, t_mask = 4095, t_before = 1, t_after = 1\<rparr>,
      \<lparr>t_pass = 1, t_mask = 8191, t_before = 1, t_after = 1\<rparr>,
      \<lparr>t_pass = 1, t_mask = 8191, t_before = 1, t_after = 1\<rparr>,
      \<lparr>t_pass = 1, t_mask = 1, t_before = 1, t_after = 1\<rparr>,
      \<lparr>t_pass = 1, t_mask = 2, t_before = 1, t_after = 1\<rparr>,
      \<lparr>t_pass = 1, t_mask = 4, t_before = 1, t_after = 1\<rparr>,
      \<lparr>t_pass = 1, t_mask = 6, t_before = 1, t_after = 1\<rparr>,
      \<lparr>t_pass = 1, t_mask = 8, t_before = 1, t_after = 1\<rparr>,
      \<lparr>t_pass = 1, t_mask = 16, t_before = 1, t_after = 1\<rparr>,
      \<lparr>t_pass = 1, t_mask = 32, t_before = 1, t_after = 1\<rparr>,
      \<lparr>t_pass = 1, t_mask = 64, t_before = 1, t_after = 1\<rparr>,
      \<lparr>t_pass = 1, t_mask = 128, t_before = 1, t_after = 1\<rparr>,
      \<lparr>t_pass = 1, t_mask = 256, t_before = 1, t_after = 1\<rparr>,
      \<lparr>t_pass = 1, t_mask = 512, t_before = 1, t_after = 1\<rparr>,
      \<lparr>t_pass = 1, t_mask = 1024, t_before = 1, t_after = 1\<rparr>,
      \<lparr>t_pass = 1, t_mask = 2048, t_before = 1, t_after = 1\<rparr>,
      \<lparr>t_pass = 1, t_mask = 4096, t_before = 1, t_after = 1\<rparr>,
      \<lparr>t_pass = 1, t_mask = 0, t_before = 1, t_after = 1\<rparr>,
      \<lparr>t_pass = 1, t_mask = 4294967295, t_before = 1, t_after = 1\<rparr>]"
  by code_simp

lemma five_failures_run:
  "stress_landlock_loop (tests env_five_failures) (continues env_five_failures)
     (drv_init env_five_failures) =
   (Goto_err,
    \<lparr>d_ctxt = \<lparr>flag = 63, filename = ''/tmp/landlock-42'', path = ''/tmp''\<rparr>,
     d_failures = 5, d_bogo = 0,
     d_log = [\<lparr>t_pass = 0, t_mask = 1, t_before = 0, t_after = 0\<rparr>,
              \<lparr>t_pass = 0, t_mask = 3, t_before = 0, t_after = 0\<rparr>,
              \<lparr>t_pass = 0, t_mask = 7, t_before = 0, t_after = 1\<rparr>,
              \<lparr>t_pass = 0, t_mask = 7, t_before = 1, t_after = 2\<rparr>,
              \<lparr>t_pass = 0, t_mask = 15, t_before = 2, t_after = 3\<rparr>,
              \<lparr>t_pass = 0, t_mask = 31, t_before = 3, t_after = 4\<rparr>,
              \<lparr>t_pass = 0, t_mask = 63, t_before = 4, t_after = 5\<rparr>]\<rparr>)"
  by code_simp

lemma isolated_run_falls_through:
  "fst (isolated_loop (tests env_two_passes) landlock_access_flags (drv_init env_two_passes)) =
     Fall_through"
  by code_simp

lemma pass_run_falls_through:
  "fst (stress_landlock_pass (tests env_two_passes) (drv_init env_two_passes)) = Fall_through"
  by code_simp


subsection \<open>The claims about the driver\<close>

text \<open>
  C1, as amended.  The Failure Counter is set to 0 once, before the first outer pass, and
  the driver never resets it: the counter read before the very first test case is 0, and
  the counter read before every later test case, the first one of a later outer pass
  included, is the value the test case before it left.  Failures of earlier passes are
  carried into the next pass.
\<close>

theorem failures_carried_across_passes:
  "(run_log env \<noteq> [] \<longrightarrow> t_before (hd (run_log env)) = 0) \<and>
   (\<forall>i. Suc i < length (run_log env) \<longrightarrow>
      t_before (run_log env ! Suc i) = t_after (run_log env ! i))"
  using run_log_wf [of env] by (auto dest: log_wf_hd log_wf_nth)

theorem failures_carried_across_passes_witness:
  "run_log env_two_passes \<noteq> [] \<and> Suc 30 < length (run_log env_two_passes) \<and>
   t_pass (run_log env_two_passes ! 30) = 0 \<and> t_pass (run_log env_two_passes ! Suc 30) = 1 \<and>
   t_before (hd (run_log env_two_passes)) = 0 \<and>
   t_before (run_log env_two_passes ! Suc 30) = t_after (run_log env_two_passes ! 30)"
proof -
  have h: "run_log env_two_passes \<noteq> []" "Suc 30 < length (run_log env_two_passes)"
    "t_pass (run_log env_two_passes ! 30) = 0" "t_pass (run_log env_two_passes ! Suc 30) = 1"
    by (simp_all add: two_pass_log)
  from failures_carried_across_passes [of env_two_passes] h show ?thesis by blast
qed

text \<open>
  The claim as it was stated fails in a run of two outer passes whose first test case is
  counted as a failure: the run returns, and the counter read before the first test case
  of the second pass is 1.
\<close>

theorem failures_reset_each_pass_counterexample:
  "stress_landlock env_two_passes \<noteq> None \<and>
   first_of_pass 1 (run_log env_two_passes) =
     Some \<lparr>t_pass = 1, t_mask = 1, t_before = 1, t_after = 1\<rparr>"
proof -
  have "\<exists>s evs. stress_landlock env_two_passes = Some (EXIT_SUCCESS, s, evs)"
    by (rule stress_landlock_returns)
      (simp_all add: env_two_passes_def wait_fails_def child_ok_def)
  then have a: "stress_landlock env_two_passes \<noteq> None" by auto
  have b: "first_of_pass 1 (run_log env_two_passes) =
     Some \<lparr>t_pass = 1, t_mask = 1, t_before = 1, t_after = 1\<rparr>"
    by (simp add: two_pass_log first_of_pass_def)
  from a b show ?thesis by simp
qed

text \<open>
  C6.  Once the Failure Counter has reached 5 no further test case is dispatched in the
  run: a harness call that leaves the counter at 5 or more is the last call of the run, no
  call is ever made with the counter at 5 or more, the loop is left by the jump to \<open>err\<close>
  exactly when the counter has reached 5, and the driver then returns.  This holds for
  the calls of the cumulative pass, of the isolated pass and of the complement test, in
  every run, ended or not.
\<close>

theorem no_dispatch_after_threshold:
  "(\<forall>i < length (run_log env). 5 \<le> t_after (run_log env ! i) \<longrightarrow> Suc i = length (run_log env)) \<and>
   (\<forall>e \<in> set (run_log env). t_before e < 5) \<and>
   ((fst (stress_landlock_loop (tests env) (continues env) (drv_init env)) = Goto_err) =
      (5 \<le> d_failures (snd (stress_landlock_loop (tests env) (continues env) (drv_init env))))) \<and>
   (fst (stress_landlock_loop (tests env) (continues env) (drv_init env)) = Goto_err \<and>
      fork_again (many_forks env) \<noteq> None \<longrightarrow> stress_landlock env \<noteq> None)"
proof -
  let ?r = "stress_landlock_loop (tests env) (continues env) (drv_init env)"
  have wf: "log_wf 0 (run_log env)" by (rule run_log_wf)
  have a: "Suc i = length (run_log env)"
    if "i < length (run_log env)" "5 \<le> t_after (run_log env ! i)" for i
  proof (rule ccontr)
    assume "Suc i \<noteq> length (run_log env)"
    with that(1) have "Suc i < length (run_log env)" by simp
    from log_wf_nth [OF wf this] that(2) show False by simp
  qed
  have b: "t_before e < 5" if "e \<in> set (run_log env)" for e
    using log_wf_set [OF wf that] by simp
  have c: "(fst ?r = Goto_err) = (5 \<le> d_failures (snd ?r))"
    using run_inv [of "tests env" "continues env" env]
    by (auto simp: flow_ok_def split: if_splits)
  have d: "stress_landlock env \<noteq> None"
    if "fst ?r = Goto_err \<and> fork_again (many_forks env) \<noteq> None"
    using stress_landlock_aborted_returns [of env] that by auto
  from a b c d show ?thesis by blast
qed

theorem no_dispatch_after_threshold_witness:
  "6 < length (run_log env_five_failures) \<and> 5 \<le> t_after (run_log env_five_failures ! 6) \<and>
   Suc 6 = length (run_log env_five_failures) \<and>
   fork_again (many_forks env_five_failures) \<noteq> None \<and>
   fst (stress_landlock_loop (tests env_five_failures) (continues env_five_failures)
          (drv_init env_five_failures)) = Goto_err \<and>
   stress_landlock env_five_failures \<noteq> None"
proof -
  have h: "6 < length (run_log env_five_failures)" "5 \<le> t_after (run_log env_five_failures ! 6)"
    "fst (stress_landlock_loop (tests env_five_failures) (continues env_five_failures)
          (drv_init env_five_failures)) = Goto_err"
    by (simp_all add: run_log_def five_failures_run)
  have g: "fork_again (many_forks env_five_failures) \<noteq> None"
    by (simp add: env_five_failures_def)
  from no_dispatch_after_threshold [of env_five_failures] h g show ?thesis by blast
qed

text \<open>
  C5, as amended.  The table has fifteen entries: the thirteen atomic access-right flags
  (bits 0 to 12), in the order of their bits, with the composite entry write-file or
  read-file put in after the third of them, and a final 0.  The isolated pass hands the
  entries of the table to the harness one by one, in order, each as the whole mask, and
  stops early only when the driver aborts or does not get further; when it runs to its
  end it has made fifteen tests, one per entry of the table.
\<close>

theorem flag_table_shape:
  "landlock_access_flags =
     map to_int (take 3 atomic_access_flags @
                 [SHIM_LANDLOCK_ACCESS_FS_WRITE_FILE OR SHIM_LANDLOCK_ACCESS_FS_READ_FILE] @
                 drop 3 atomic_access_flags) @ [0] \<and>
   length landlock_access_flags = 15 \<and>
   atomic_access_flags = map (\<lambda>i. push_bit i 1) [0..<13] \<and>
   map to_uint32 landlock_access_flags =
     [1, 2, 4, 6, 8, 16, 32, 64, 128, 256, 512, 1024, 2048, 4096, 0] \<and>
   (\<forall>ts s. \<exists>new n. n \<le> 15 \<and>
      d_log (snd (isolated_loop ts landlock_access_flags s)) = d_log s @ new \<and>
      map t_mask new = take n (map to_uint32 landlock_access_flags) \<and>
      (fst (isolated_loop ts landlock_access_flags s) = Fall_through \<longrightarrow> n = 15))"
proof -
  have l: "length landlock_access_flags = 15" by (simp add: table_values)
  have i: "\<exists>new n. n \<le> 15 \<and>
      d_log (snd (isolated_loop ts landlock_access_flags s)) = d_log s @ new \<and>
      map t_mask new = take n (map to_uint32 landlock_access_flags) \<and>
      (fst (isolated_loop ts landlock_access_flags s) = Fall_through \<longrightarrow> n = 15)" for ts s
    using isolated_loop_masks [of landlock_access_flags ts s] unfolding l
    by (metis take_map)
  from table_shape l atomic_values table_masks i show ?thesis by blast
qed

theorem flag_table_shape_witness:
  "fst (isolated_loop (tests env_two_passes) landlock_access_flags (drv_init env_two_passes)) =
     Fall_through \<and>
   map t_mask (d_log (snd (isolated_loop (tests env_two_passes) landlock_access_flags
                             (drv_init env_two_passes)))) =
     [1, 2, 4, 6, 8, 16, 32, 64, 128, 256, 512, 1024, 2048, 4096, 0]"
proof -
  let ?r = "isolated_loop (tests env_two_passes) landlock_access_flags (drv_init env_two_passes)"
  have h: "fst ?r = Fall_through" by (rule isolated_run_falls_through)
  from flag_table_shape obtain new n where
    n: "d_log (snd ?r) = d_log (drv_init env_two_passes) @ new"
       "map t_mask new = take n (map to_uint32 landlock_access_flags)"
       "fst ?r = Fall_through \<longrightarrow> n = 15"
    by blast
  from n(3) h have "n = 15" by simp
  with n(1,2) have "map t_mask (d_log (snd ?r)) = map to_uint32 landlock_access_flags"
    by (simp add: drv_init_def table_values)
  with h show ?thesis by (simp add: table_masks)
qed

text \<open>
  The claim as it was stated fails on the table itself: it has fifteen entries, not
  thirteen; the entry at index 3 is the union of two flags and the entry at index 14 is
  0, neither of them an atomic flag.  In the isolated pass of a run these two entries are
  tested as they are (the calls 18 and 29 of the run).
\<close>

theorem flag_table_thirteen_atomic_counterexample:
  "length landlock_access_flags = 15 \<and> length atomic_access_flags = 13 \<and>
   landlock_access_flags ! 3 =
     to_int (SHIM_LANDLOCK_ACCESS_FS_WRITE_FILE OR SHIM_LANDLOCK_ACCESS_FS_READ_FILE) \<and>
   landlock_access_flags ! 3 \<notin> set (map to_int atomic_access_flags) \<and>
   landlock_access_flags ! 14 = 0 \<and>
   landlock_access_flags ! 14 \<notin> set (map to_int atomic_access_flags) \<and>
   landlock_access_flags \<noteq> map to_int atomic_access_flags \<and>
   t_mask (run_log env_two_passes ! 18) = 6 \<and> t_mask (run_log env_two_passes ! 29) = 0"
proof -
  have a: "landlock_access_flags ! 3 =
     to_int (SHIM_LANDLOCK_ACCESS_FS_WRITE_FILE OR SHIM_LANDLOCK_ACCESS_FS_READ_FILE)"
    by (simp add: landlock_access_flags_def)
  have b: "length landlock_access_flags = 15" "length atomic_access_flags = 13"
    "landlock_access_flags ! 3 \<notin> set (map to_int atomic_access_flags)"
    "landlock_access_flags ! 14 = 0"
    "landlock_access_flags ! 14 \<notin> set (map to_int atomic_access_flags)"
    "landlock_access_flags \<noteq> map to_int atomic_access_flags"
    by (simp_all add: table_values atomic_ints) (simp add: atomic_access_flags_def)
  have c: "t_mask (run_log env_two_passes ! 18) = 6" "t_mask (run_log env_two_passes ! 29) = 0"
    by (simp_all add: two_pass_log)
  from a b c show ?thesis by simp
qed

text \<open>
  C10.  The candidate access mask of the test context is a 32-bit field.  The
  \<open>allowed_access\<close> handed to the add-rule call of a test child is that field
  zero-extended to 64 bits, so its upper 32 bits are zero: no bit from 32 to 63 is ever
  set, and the undefined bits that are exercised lie between 13 and 31.  When the isolated
  pass has run to its end the mask is the final 0 of the table, and the complement test
  of a pass that runs to its end hands over the 32-bit complement of it, \<open>0xFFFFFFFF\<close>.
\<close>

theorem allowed_access_high_bits_zero:
  "(\<forall>k c r aa a. Ev_add_rule r aa a \<in> set (snd (stress_landlock_flag k c)) \<longrightarrow>
       aa = ucast (flag c) \<and> drop_bit 32 aa = 0 \<and> (\<forall>n. bit aa n \<longrightarrow> n < 32)) \<and>
   (\<forall>ts s. fst (isolated_loop ts landlock_access_flags s) = Fall_through \<longrightarrow>
       flag (d_ctxt (snd (isolated_loop ts landlock_access_flags s))) = 0) \<and>
   (\<forall>ts s. fst (stress_landlock_pass ts s) = Fall_through \<longrightarrow>
       d_log (snd (stress_landlock_pass ts s)) \<noteq> [] \<and>
       t_mask (last (d_log (snd (stress_landlock_pass ts s)))) = 0xFFFFFFFF)"
proof -
  have a: "aa = ucast (flag c) \<and> drop_bit 32 aa = 0 \<and> (\<forall>n. bit aa n \<longrightarrow> n < 32)"
    if "Ev_add_rule r aa a \<in> set (snd (stress_landlock_flag k c))" for k c r aa a
  proof -
    from add_rule_in_flag [OF that] have e: "aa = ucast (flag c)" .
    then show ?thesis
      by (auto simp: ucast_32_64_high bit_ucast_iff dest: bit_imp_le_length)
  qed
  from a isolated_final_flag pass_complement_mask show ?thesis by blast
qed

theorem allowed_access_high_bits_zero_witness:
  "Ev_add_rule 3 1 4 \<in> set (snd (stress_landlock_flag kernel_ok ctxt_ex)) \<and>
   drop_bit 32 (1 :: 64 word) = 0 \<and>
   fst (isolated_loop (tests env_two_passes) landlock_access_flags (drv_init env_two_passes)) =
     Fall_through \<and>
   flag (d_ctxt (snd (isolated_loop (tests env_two_passes) landlock_access_flags
                        (drv_init env_two_passes)))) = 0 \<and>
   fst (stress_landlock_pass (tests env_two_passes) (drv_init env_two_passes)) = Fall_through \<and>
   t_mask (last (d_log (snd (stress_landlock_pass (tests env_two_passes)
                               (drv_init env_two_passes))))) = 0xFFFFFFFF"
proof -
  have h: "Ev_add_rule 3 1 4 \<in> set (snd (stress_landlock_flag kernel_ok ctxt_ex))"
    by (simp add: stress_landlock_flag_def Let_def kernel_ok_def ctxt_ex_def
        open_and_close_def close_parent_def close_ruleset_def sanity_opens_def)
  note i = isolated_run_falls_through and p = pass_run_falls_through
  from allowed_access_high_bits_zero h i p show ?thesis by blast
qed


section \<open>Properties of the enumerator\<close>

lemma call_depths_append [simp]: "call_depths (xs @ ys) = call_depths xs @ call_depths ys"
  by (induction xs rule: call_depths.induct) auto

lemma acted_paths_append [simp]: "acted_paths (xs @ ys) = acted_paths xs @ acted_paths ys"
  by (induction xs rule: acted_paths.induct) auto

lemma resolved_same_append [simp]: "resolved_same (xs @ ys) = resolved_same xs @ resolved_same ys"
  by (induction xs rule: resolved_same.induct) auto

lemma add_file_rule_traces [simp]:
  "call_depths (snd (add_file_rule r q a ret)) = []"
  "acted_paths (snd (add_file_rule r q a ret)) = [q]"
  "resolved_same (snd (add_file_rule r q a ret)) = []"
  by (simp_all add: add_file_rule_def)

text \<open>Every call is made at a depth between the starting depth and 30.\<close>

lemma many_depth_bound:
  "\<forall>d \<in> set (call_depths (stress_landlock_many t p depth)). depth \<le> d \<and> d \<le> max depth 30"
  "\<forall>d \<in> set (call_depths (many_entries r p depth es)). depth < d \<and> d \<le> 30"
proof (induction t p depth and r p depth es rule: stress_landlock_many_many_entries.induct)
  case (1 ruleset ents p depth)
  show ?case
  proof (cases "ruleset < 0")
    case True
    then show ?thesis by simp
  next
    case False
    from 1 [OF False]
    have "\<forall>d\<in>set (call_depths (many_entries ruleset p depth ents)). depth \<le> d \<and> d \<le> max depth 30"
      by fastforce
    with False show ?thesis by simp
  qed
next
  case (2 ruleset p depth)
  then show ?case by simp
next
  case (3 ruleset p depth name ty rp anchor ret sub es)
  show ?case
  proof (cases rp)
    case None
    with 3 show ?thesis by simp
  next
    case (Some resolved)
    show ?thesis
    proof (cases "join_path p name = resolved")
      case False
      with Some 3 show ?thesis by simp
    next
      case True
      obtain b evs where a: "add_file_rule ruleset resolved anchor ret = (b, evs)"
        by (cases "add_file_rule ruleset resolved anchor ret")
      then have e: "call_depths evs = []"
        using add_file_rule_traces(1) [of ruleset resolved anchor ret] by simp
      show ?thesis
      proof (cases ty)
        case DT_REG
        with Some True a e 3(2) [OF Some True DT_REG] show ?thesis by (cases b) auto
      next
        case DT_LNK
        with Some True a e 3(3) [OF Some True DT_LNK] show ?thesis by (cases b) auto
      next
        case DT_DIR
        with Some True 3(4) [OF Some True DT_DIR] 3(5) [OF Some True DT_DIR] show ?thesis
          by (cases "depth < 30") auto
      next
        case DT_OTHER
        with Some True 3(6) [OF Some True DT_OTHER] show ?thesis by simp
      qed
    qed
  qed
qed

text \<open>A tree that the limit does not reach is walked as if there were no limit.\<close>

lemma shallow_walk:
  "int (dir_height t) + depth \<le> 30 \<Longrightarrow>
     stress_landlock_many t p depth = walk_unbounded t p depth"
  "int (dirents_height es) + depth \<le> 30 \<Longrightarrow>
     many_entries r p depth es = walk_entries_unbounded r p depth es"
proof (induction t p depth and r p depth es rule: stress_landlock_many_many_entries.induct)
  case (1 ruleset ents p depth)
  then show ?case by simp
next
  case (2 ruleset p depth)
  then show ?case by simp
next
  case (3 ruleset p depth name ty rp anchor ret sub es)
  from 3(8) have h: "int (dirents_height es) + depth \<le> 30" by simp
  show ?case
  proof (cases rp)
    case None
    with 3(1) h show ?thesis by simp
  next
    case (Some resolved)
    show ?thesis
    proof (cases "join_path p name = resolved")
      case False
      with Some 3(7) h show ?thesis by simp
    next
      case True
      show ?thesis
      proof (cases ty)
        case DT_REG
        with Some True 3(1,2) h show ?thesis by (auto split: prod.splits bool.splits)
      next
        case DT_LNK
        with Some True 3(3) h show ?thesis by (auto split: prod.splits bool.splits)
      next
        case DT_DIR
        with 3(8) have d: "depth < 30" "int (dir_height sub) + (depth + 1) \<le> 30" by simp_all
        with DT_DIR Some True 3(4) [OF Some True DT_DIR] 3(5) [OF Some True DT_DIR] h
        show ?thesis by simp
      next
        case DT_OTHER
        with Some True 3(6) h show ?thesis by simp
      qed
    qed
  qed
qed

text \<open>The walk makes at most one call for each directory of the tree.\<close>

lemma many_call_count:
  "length (call_depths (stress_landlock_many t p depth)) \<le> dir_count t"
  "length (call_depths (many_entries r p depth es)) \<le> dirents_count es"
proof (induction t p depth and r p depth es rule: stress_landlock_many_many_entries.induct)
  case (1 ruleset ents p depth)
  then show ?case by simp
next
  case (2 ruleset p depth)
  then show ?case by simp
next
  case (3 ruleset p depth name ty rp anchor ret sub es)
  show ?case
  proof (cases rp)
    case None
    with 3(1) show ?thesis by simp
  next
    case (Some resolved)
    show ?thesis
    proof (cases "join_path p name = resolved")
      case False
      with Some 3(7) show ?thesis by simp
    next
      case True
      obtain b evs where a: "add_file_rule ruleset resolved anchor ret = (b, evs)"
        by (cases "add_file_rule ruleset resolved anchor ret")
      then have e: "call_depths evs = []"
        using add_file_rule_traces(1) [of ruleset resolved anchor ret] by simp
      show ?thesis
      proof (cases ty)
        case DT_REG
        with Some True a e 3(2) [OF Some True DT_REG] show ?thesis by (cases b) auto
      next
        case DT_LNK
        with Some True a e 3(3) [OF Some True DT_LNK] show ?thesis by (cases b) auto
      next
        case DT_DIR
        with Some True 3(4) [OF Some True DT_DIR] 3(5) [OF Some True DT_DIR] show ?thesis
          by (cases "depth < 30") auto
      next
        case DT_OTHER
        with Some True 3(6) [OF Some True DT_OTHER] show ?thesis by simp
      qed
    qed
  qed
qed

text \<open>The calls made on a chain of nested directories.\<close>

lemma chain_calls:
  "d \<le> 30 \<Longrightarrow>
   call_depths (stress_landlock_many (chain_below p n) p d) =
     map (\<lambda>i. d + int i) [0..<Suc (min n (nat (30 - d)))]"
proof (induction n arbitrary: p d)
  case 0
  then show ?case by simp
next
  case (Suc n)
  show ?case
  proof (cases "d < 30")
    case False
    with Suc.prems have "d = 30" by simp
    then show ?thesis by (simp add: add_file_rule_def)
  next
    case True
    then have m: "min (Suc n) (nat (30 - d)) = Suc (min n (nat (30 - (d + 1))))"
      by (simp add: min_def) linarith
    from True have "d + 1 \<le> 30" by simp
    from Suc.IH [OF this, of "join_path p ''d''"] True show ?thesis
      unfolding m by (simp add: add_file_rule_def map_upt_Suc del: upt_Suc)
  qed
qed

lemma chain_height: "dir_height (chain_below p n) = n"
  by (induction n arbitrary: p) auto

text \<open>An entry that fails the comparison contributes the \<open>realpath\<close> call and nothing else.\<close>

lemma entry_skipped:
  assumes "rp \<noteq> Some (join_path p name)"
  shows "many_entries ruleset p depth (Dirent name ty rp anchor ret sub # es) =
         Ev_realpath (join_path p name) rp # many_entries ruleset p depth es"
  using assms by (cases rp) auto

text \<open>Whatever the walk opens or enters, the starting directory apart, passed the comparison.\<close>

lemma acted_only_resolved:
  "set (acted_paths (stress_landlock_many t p depth)) \<subseteq>
     insert p (set (resolved_same (stress_landlock_many t p depth)))"
  "set (acted_paths (many_entries r p depth es)) \<subseteq>
     set (resolved_same (many_entries r p depth es))"
proof (induction t p depth and r p depth es rule: stress_landlock_many_many_entries.induct)
  case (1 ruleset ents p depth)
  then show ?case by auto
next
  case (2 ruleset p depth)
  then show ?case by simp
next
  case (3 ruleset p depth name ty rp anchor ret sub es)
  show ?case
  proof (cases rp)
    case None
    with 3(1) show ?thesis by simp
  next
    case (Some resolved)
    show ?thesis
    proof (cases "join_path p name = resolved")
      case False
      with Some 3(7) show ?thesis by auto
    next
      case True
      obtain b evs where a: "add_file_rule ruleset resolved anchor ret = (b, evs)"
        by (cases "add_file_rule ruleset resolved anchor ret")
      then have e: "acted_paths evs = [resolved]" "resolved_same evs = []"
        using add_file_rule_traces(2,3) [of ruleset resolved anchor ret] by simp_all
      show ?thesis
      proof (cases ty)
        case DT_REG
        with Some True a e 3(2) [OF Some True DT_REG] show ?thesis by (cases b) auto
      next
        case DT_LNK
        with Some True a e 3(3) [OF Some True DT_LNK] show ?thesis by (cases b) auto
      next
        case DT_DIR
        with Some True 3(4) [OF Some True DT_DIR] 3(5) [OF Some True DT_DIR] show ?thesis
          by (cases "depth < 30") auto
      next
        case DT_OTHER
        with Some True 3(6) [OF Some True DT_OTHER] show ?thesis by auto
      qed
    qed
  qed
qed

text \<open>
  C8.  The enumerator ends on every finite directory tree, with at most one call per
  directory of the tree, and its recursion is capped: a directory entry is entered only
  when the current depth is below 30, and then with the depth increased by one, so every
  call is made at a depth between the starting depth and 30.  A tree with at most 30
  levels of directories below the starting depth is walked in full, as without the
  limit.  On a chain of \<open>n\<close> nested directories walked from depth 0 the calls are made
  at the depths 0 to \<open>n\<close> when \<open>n\<close> is below 30, and at the depths 0 to 30, stopping at
  exactly 30, when \<open>n\<close> is 30 or more.
\<close>

theorem many_depth_capped:
  "(\<forall>d \<in> set (call_depths (stress_landlock_many t p depth)). depth \<le> d \<and> d \<le> max depth 30) \<and>
   length (call_depths (stress_landlock_many t p depth)) \<le> dir_count t \<and>
   (\<forall>r name resolved anchor ret sub es. join_path p name = resolved \<longrightarrow>
      many_entries r p depth (Dirent name DT_DIR (Some resolved) anchor ret sub # es) =
        Ev_realpath (join_path p name) (Some resolved) #
        (if depth < 30 then stress_landlock_many sub resolved (depth + 1) else []) @
        many_entries r p depth es) \<and>
   (int (dir_height t) + depth \<le> 30 \<longrightarrow>
      stress_landlock_many t p depth = walk_unbounded t p depth) \<and>
   (\<forall>q n. call_depths (stress_landlock_many (chain_below q n) q 0) =
      map int [0..<Suc (min n 30)])"
proof -
  have c: "call_depths (stress_landlock_many (chain_below q n) q 0) = map int [0..<Suc (min n 30)]"
    for q n
    using chain_calls [of 0 q n] by simp
  from many_depth_bound(1) [of t p depth] many_call_count(1) [of t p depth]
    shallow_walk(1) [of t depth p] c
  show ?thesis by simp
qed

theorem many_depth_capped_witness:
  "int (dir_height (chain_below ''/'' 3)) + 0 \<le> 30 \<and>
   stress_landlock_many (chain_below ''/'' 3) ''/'' 0 = walk_unbounded (chain_below ''/'' 3) ''/'' 0 \<and>
   dir_height (chain_below ''/'' 35) = 35 \<and>
   call_depths (stress_landlock_many (chain_below ''/'' 35) ''/'' 0) = map int [0..<31] \<and>
   30 \<in> set (call_depths (stress_landlock_many (chain_below ''/'' 35) ''/'' 0)) \<and>
   31 \<notin> set (call_depths (stress_landlock_many (chain_below ''/'' 35) ''/'' 0))"
proof -
  have h: "int (dir_height (chain_below ''/'' 3)) + 0 \<le> 30" by (simp add: chain_height)
  note a = many_depth_capped [of "chain_below ''/'' 3" "''/''" 0]
  note b = many_depth_capped [of "chain_below ''/'' 35" "''/''" 0]
  from a h have w: "stress_landlock_many (chain_below ''/'' 3) ''/'' 0 =
      walk_unbounded (chain_below ''/'' 3) ''/'' 0" by blast
  from b have c: "call_depths (stress_landlock_many (chain_below ''/'' 35) ''/'' 0) =
      map int [0..<Suc (min 35 30)]" by blast
  then have c': "call_depths (stress_landlock_many (chain_below ''/'' 35) ''/'' 0) = map int [0..<31]"
    by simp
  have m: "(30 :: int) \<in> set (map int [0..<31])"
    using image_eqI [of "30 :: int" int 30 "{0..<31}"] by simp
  from b have "\<forall>d \<in> set (call_depths (stress_landlock_many (chain_below ''/'' 35) ''/'' 0)).
      0 \<le> d \<and> d \<le> max 0 30" by blast
  then have n: "31 \<notin> set (call_depths (stress_landlock_many (chain_below ''/'' 35) ''/'' 0))"
    by auto
  from h w c' m n show ?thesis by (simp add: chain_height)
qed

text \<open>
  C9.  A directory entry whose canonical real path cannot be resolved, or differs from
  the join of the parent path and the entry name, is skipped entirely: the walk calls
  \<open>realpath\<close> for it and goes on with the next entry, whatever the type of the entry and
  whatever lies below it; no anchor is opened, no rule is attached, there is no
  recursion.  So in a whole walk every path that is opened as an anchor or entered by
  recursion is one for which \<open>realpath\<close> returned the joined path itself.
\<close>

theorem mismatched_entry_skipped:
  "(rp \<noteq> Some (join_path p name) \<longrightarrow>
      many_entries ruleset p depth (Dirent name ty rp anchor ret sub # es) =
        Ev_realpath (join_path p name) rp # many_entries ruleset p depth es) \<and>
   set (acted_paths (stress_landlock_many t p depth)) \<subseteq>
     insert p (set (resolved_same (stress_landlock_many t p depth)))"
  using entry_skipped [of rp p name ruleset depth ty anchor ret sub es]
    acted_only_resolved(1) [of t p depth]
  by blast

theorem mismatched_entry_skipped_witness:
  "Some ''/usr/lib'' \<noteq> Some (join_path ''/'' ''lib'') \<and>
   link_entry = Dirent ''lib'' DT_DIR (Some ''/usr/lib'') 4 0 (chain_below ''/usr/lib'' 1) \<and>
   many_entries 3 ''/'' 0 [link_entry] = [Ev_realpath ''/lib'' (Some ''/usr/lib''), Ev_close 3] \<and>
   stress_landlock_many (Dir 3 [link_entry]) ''/'' 0 =
     [Ev_call_many ''/'' 0, Ev_create_ruleset SHIM_LANDLOCK_ACCESS_ALL, Ev_scandir ''/'',
      Ev_realpath ''/lib'' (Some ''/usr/lib''), Ev_close 3]"
proof -
  have j: "join_path ''/'' ''lib'' = ''/lib''"
    by (simp add: join_path_def snprintf_def PATH_MAX_def)
  then have h: "Some ''/usr/lib'' \<noteq> Some (join_path ''/'' ''lib'')" by simp
  from mismatched_entry_skipped
    [of "Some ''/usr/lib''" "''/''" "''lib''" 3 0 DT_DIR 4 0 "chain_below ''/usr/lib'' 1" "[]"] h
  have "many_entries 3 ''/'' 0 [link_entry] =
      Ev_realpath (join_path ''/'' ''lib'') (Some ''/usr/lib'') # many_entries 3 ''/'' 0 []"
    unfolding link_entry_def by blast
  with j h show ?thesis by (simp add: link_entry_def)
qed


end
